(* ===== verification/Tee_Prelude.thy ===== *)
theory Tee_Prelude
  imports Main "HOL-Library.Word" "HOL-Library.Signed_Division"
begin

text \<open>
  Shared vocabulary of the development: the machine integer types of the C code, the error
  values that stand for undefined behaviour, C memory objects as byte lists with the C string
  functions the sources call (\<^verbatim>\<open>strlen\<close>, \<^verbatim>\<open>strcpy\<close>, \<^verbatim>\<open>strcat\<close>, \<^verbatim>\<open>memcpy\<close>, \<^verbatim>\<open>memset\<close>), and the
  list and arithmetic lemmas the components share.

  A memory object is the list of its bytes, so its length is its size in C. Every read or
  write outside the object, which is undefined behaviour in C, is an \<^verbatim>\<open>Inl\<close> value here; a
  theorem that a function returns \<^verbatim>\<open>Inr\<close> therefore says that the run is memory safe.
\<close>

unbundle bit_operations_syntax

section \<open>Machine integers and errors\<close>

type_synonym u8 = "8 word"
type_synonym u16 = "16 word"
type_synonym u32 = "32 word"
type_synonym u64 = "64 word"

datatype c_error =
    Buffer_overflow
  | Out_of_bounds_read
  | Null_dereference
  | Uninitialised_read

type_synonym 'a c_result = "c_error + 'a"

abbreviation NUL :: char where
  "NUL \<equiv> CHR 0x00"

abbreviation LF :: char where
  "LF \<equiv> CHR 0x0A"

named_theorems cstr_simps \<open>rewriting of C strings held in buffers\<close>
named_theorems result_iff \<open>when a fallible call returns\<close>

section \<open>Arithmetic\<close>

text \<open>C's \<^verbatim>\<open>%\<close> truncates; on the non-negative indices of the program it is \<^verbatim>\<open>mod\<close>.\<close>

lemma smod_nonneg: "0 \<le> a \<Longrightarrow> 0 < b \<Longrightarrow> a smod b = a mod b" for a b :: int
  by (cases "a = 0") (simp_all add: signed_modulo_int_def signed_divide_int_def minus_div_mult_eq_mod)

lemma mod_add_inj:
  fixes h i j n :: int
  assumes "0 \<le> i" "i < n" "0 \<le> j" "j < n" "(h + i) mod n = (h + j) mod n"
  shows "i = j"
proof -
  from assms(5) have "n dvd (h + i) - (h + j)"
    by (rule mod_eq_dvd_iff [THEN iffD1])
  then have "n dvd (i - j)" by simp
  moreover have "\<bar>i - j\<bar> < \<bar>n\<bar>" using assms by auto
  ultimately have "i - j = 0" by (meson dvd_imp_le_int not_less)
  then show ?thesis by simp
qed

section \<open>C strings in buffers\<close>

definition cstr :: "char list \<Rightarrow> char list" where
  "cstr buf = takeWhile (\<lambda>c. c \<noteq> NUL) buf"

fun strlen :: "char list \<Rightarrow> nat c_result" where
  "strlen [] = Inl Out_of_bounds_read"
| "strlen (c # cs) =
     (if c = NUL then Inr 0
      else case strlen cs of Inl e \<Rightarrow> Inl e | Inr n \<Rightarrow> Inr (Suc n))"

definition strcpy :: "char list \<Rightarrow> char list \<Rightarrow> char list c_result" where
  "strcpy dst src =
     (case strlen src of
        Inl e \<Rightarrow> Inl e
      | Inr n \<Rightarrow>
          if n < length dst then Inr (take n src @ NUL # drop (Suc n) dst)
          else Inl Buffer_overflow)"

definition strcat :: "char list \<Rightarrow> char list \<Rightarrow> char list c_result" where
  "strcat dst src =
     (case strlen dst of
        Inl e \<Rightarrow> Inl e
      | Inr n \<Rightarrow>
          (case strcpy (drop n dst) src of
             Inl e \<Rightarrow> Inl e
           | Inr tail \<Rightarrow> Inr (take n dst @ tail)))"

definition memcpy :: "'a list \<Rightarrow> 'a list \<Rightarrow> nat \<Rightarrow> 'a list c_result" where
  "memcpy dst src n =
     (if length src < n then Inl Out_of_bounds_read
      else if length dst < n then Inl Buffer_overflow
      else Inr (take n src @ drop n dst))"

definition memset :: "'a list \<Rightarrow> 'a \<Rightarrow> nat \<Rightarrow> 'a list c_result" where
  "memset dst v n =
     (if length dst < n then Inl Buffer_overflow else Inr (replicate n v @ drop n dst))"

text \<open>A string literal is its characters and the terminator.\<close>

definition lit :: "string \<Rightarrow> char list" where
  "lit s = s @ [NUL]"

subsection \<open>What the string functions do to the string a buffer holds\<close>

lemma strlen_eq:
  "strlen b = (if NUL \<in> set b then Inr (length (cstr b)) else Inl Out_of_bounds_read)"
  by (induction b) (auto simp: cstr_def)

lemma strlen_iff [result_iff]: "strlen b = Inr n \<longleftrightarrow> NUL \<in> set b \<and> n = length (cstr b)"
  by (auto simp: strlen_eq)

lemma strlen_error_iff: "strlen b = Inl e \<longleftrightarrow> NUL \<notin> set b \<and> e = Out_of_bounds_read"
  by (auto simp: strlen_eq)

lemma strlen_terminated [cstr_simps]: "NUL \<in> set b \<Longrightarrow> strlen b = Inr (length (cstr b))"
  by (simp add: strlen_iff)

lemma strlen_unterminated [cstr_simps]: "NUL \<notin> set b \<Longrightarrow> strlen b = Inl Out_of_bounds_read"
  by (simp add: strlen_error_iff)

lemma NUL_notin_cstr [simp]: "NUL \<notin> set (cstr b)"
  by (auto simp: cstr_def dest: set_takeWhileD)

lemma cstr_append [cstr_simps]: "NUL \<notin> set xs \<Longrightarrow> cstr (xs @ NUL # ys) = xs"
  by (induction xs) (auto simp: cstr_def)

lemma cstr_lit [simp]: "NUL \<notin> set s \<Longrightarrow> cstr (lit s) = s"
  by (simp add: lit_def cstr_append)

lemma cstr_Nil_iff: "b \<noteq> [] \<Longrightarrow> cstr b = [] \<longleftrightarrow> hd b = NUL"
  by (cases b) (auto simp: cstr_def)

lemma NUL_in_lit [simp]: "NUL \<in> set (lit s)"
  by (simp add: lit_def)

lemma cstr_prefix: "cstr b = take (length (cstr b)) b"
  unfolding cstr_def by (rule takeWhile_eq_take)

lemma cstr_length_less: "NUL \<in> set b \<Longrightarrow> length (cstr b) < length b"
  unfolding cstr_def by (induction b) auto

lemma cstr_split: "NUL \<in> set b \<Longrightarrow> b = cstr b @ NUL # drop (Suc (length (cstr b))) b"
  by (induction b) (auto simp: cstr_def)

lemma strcpy_eq:
  "strcpy dst src =
     (if NUL \<notin> set src then Inl Out_of_bounds_read
      else if length (cstr src) < length dst
      then Inr (cstr src @ NUL # drop (Suc (length (cstr src))) dst)
      else Inl Buffer_overflow)"
  by (simp add: strcpy_def cstr_simps cstr_prefix [symmetric])

lemma strcpy_iff [result_iff]:
  "strcpy dst src = Inr d \<longleftrightarrow>
     NUL \<in> set src \<and> length (cstr src) < length dst \<and>
     d = cstr src @ NUL # drop (Suc (length (cstr src))) dst"
  by (auto simp: strcpy_eq)

lemma strcpy_holds:
  assumes "strcpy dst src = Inr d"
  shows "cstr d = cstr src" and "length d = length dst" and "NUL \<in> set d"
  using assms by (auto simp: strcpy_iff cstr_append)

lemma strcat_eq:
  assumes "NUL \<in> set dst"
  shows "strcat dst src =
     (if NUL \<notin> set src then Inl Out_of_bounds_read
      else if length (cstr dst) + length (cstr src) < length dst
      then Inr (cstr dst @ cstr src @ NUL #
                drop (Suc (length (cstr dst) + length (cstr src))) dst)
      else Inl Buffer_overflow)"
  using assms cstr_length_less [OF assms]
  by (auto simp: strcat_def strcpy_eq cstr_simps cstr_prefix [symmetric] add.commute)

lemma strcat_holds:
  assumes "strcat dst src = Inr d" and "NUL \<in> set dst"
  shows "cstr d = cstr dst @ cstr src" and "length d = length dst" and "NUL \<in> set d"
  using assms cstr_append [of "cstr dst @ cstr src"]
  by (auto simp: strcat_eq split: if_splits)

lemma memset_zero_clears:
  assumes "memset b NUL (length (cstr b)) = Inr d" and "NUL \<in> set b"
  shows "cstr d = []" and "length d = length b" and "NUL \<in> set d"
proof -
  have d: "d = replicate (length (cstr b)) NUL @ NUL # drop (Suc (length (cstr b))) b"
    using assms cstr_split [OF assms(2)] cstr_length_less [OF assms(2)]
    by (auto simp: memset_def split: if_splits)
       (metis append_eq_conv_conj append_take_drop_id cstr_prefix)
  then show "cstr d = []" by (cases "length (cstr b)") (auto simp: cstr_def)
  show "length d = length b" using assms by (auto simp: memset_def split: if_splits)
  show "NUL \<in> set d" using d by simp
qed

end
