(* ===== verification/Bounded_Fifo.thy ===== *)
theory Bounded_Fifo
  imports Tee_Prelude
begin

text \<open>
  The contract of the audit ring buffer, as an abstract specification and an interface.
  The specification is a list with a capacity: a full queue refuses the element and keeps
  its contents, an empty queue returns an error. The locale \<^verbatim>\<open>bounded_fifo\<close> says what an
  implementation with C return codes promises about that list; the simulation of whole
  runs is proved once inside it.
\<close>

section \<open>Specification\<close>

datatype 'a queue_op = Enq 'a | Deq

text \<open>The answer of one operation: its return code and, for a dequeue, the element.\<close>

type_synonym 'a queue_answer = "int \<times> 'a option"

fun fifo_step :: "nat \<Rightarrow> 'a queue_op \<Rightarrow> 'a list \<Rightarrow> 'a queue_answer \<times> 'a list" where
  "fifo_step cap (Enq x) xs =
     (if length xs < cap then ((0, None), xs @ [x]) else ((-1, None), xs))"
| "fifo_step cap Deq [] = ((-1, None), [])"
| "fifo_step cap Deq (x # xs) = ((0, Some x), xs)"

fun fifo_run :: "nat \<Rightarrow> 'a queue_op list \<Rightarrow> 'a list \<Rightarrow> 'a queue_answer list \<times> 'a list" where
  "fifo_run cap [] xs = ([], xs)"
| "fifo_run cap (opn # opns) xs =
     (let (a, ys) = fifo_step cap opn xs; (as, zs) = fifo_run cap opns ys in (a # as, zs))"

lemma fifo_step_bound: "length xs \<le> cap \<Longrightarrow> length (snd (fifo_step cap opn xs)) \<le> cap"
  by (cases "(cap, opn, xs)" rule: fifo_step.cases) auto

lemma fifo_run_bound: "length xs \<le> cap \<Longrightarrow> length (snd (fifo_run cap opns xs)) \<le> cap"
proof (induction opns arbitrary: xs)
  case (Cons opn opns)
  then show ?case
    using fifo_step_bound [of xs cap opn] by (auto simp: split_beta)
qed simp

text \<open>The accepted elements of a run, and the elements it handed out, in order.\<close>

fun accepted :: "'a queue_op list \<Rightarrow> 'a queue_answer list \<Rightarrow> 'a list" where
  "accepted (Enq x # opns) (a # as) = (if fst a = 0 then [x] else []) @ accepted opns as"
| "accepted (Deq # opns) (a # as) = accepted opns as"
| "accepted _ _ = []"

definition delivered :: "'a queue_answer list \<Rightarrow> 'a list" where
  "delivered as = List.map_filter snd as"

lemma delivered_simps [simp]:
  "delivered [] = []"
  "delivered (a # as) = (case snd a of None \<Rightarrow> [] | Some x \<Rightarrow> [x]) @ delivered as"
  by (simp_all add: delivered_def List.map_filter_def split: option.splits)

text \<open>First in, first out, nothing lost and nothing invented, for every run.\<close>

lemma fifo_run_conserves:
  "fifo_run cap opns xs = (as, ys) \<Longrightarrow> xs @ accepted opns as = delivered as @ ys"
proof (induction opns arbitrary: xs as ys)
  case (Cons opn opns)
  obtain a zs where st: "fifo_step cap opn xs = (a, zs)" by (cases "fifo_step cap opn xs") blast
  obtain as' ys' where rn: "fifo_run cap opns zs = (as', ys')" by (cases "fifo_run cap opns zs") blast
  have eq: "as = a # as'" "ys = ys'" using Cons.prems st rn by auto
  have IH: "zs @ accepted opns as' = delivered as' @ ys'" by (rule Cons.IH [OF rn])
  show ?case
    using st IH eq by (cases "(cap, opn, xs)" rule: fifo_step.cases) (auto split: if_splits)
qed simp

section \<open>Interface\<close>

text \<open>
  Running a list of operations on an implementation given by its two operations; the
  buffer is reused by every dequeue, as the drain loop of the audit code does.
\<close>

fun queue_run ::
    "('b \<Rightarrow> 'q \<Rightarrow> 'e + int \<times> 'q) \<Rightarrow> ('c \<Rightarrow> 'q \<Rightarrow> 'e + int \<times> 'c \<times> 'q) \<Rightarrow> ('c \<Rightarrow> 'a) \<Rightarrow>
     'b queue_op list \<Rightarrow> 'c \<Rightarrow> 'q \<Rightarrow> ('e + 'a queue_answer list \<times> 'q)" where
  "queue_run enq deq val [] c q = Inr ([], q)"
| "queue_run enq deq val (Enq b # opns) c q =
     (case enq b q of
        Inl e \<Rightarrow> Inl e
      | Inr (r, q') \<Rightarrow>
          (case queue_run enq deq val opns c q' of
             Inl e \<Rightarrow> Inl e
           | Inr (as, s) \<Rightarrow> Inr ((r, None) # as, s)))"
| "queue_run enq deq val (Deq # opns) c q =
     (case deq c q of
        Inl e \<Rightarrow> Inl e
      | Inr (r, c', q') \<Rightarrow>
          (case queue_run enq deq val opns c' q' of
             Inl e \<Rightarrow> Inl e
           | Inr (as, s) \<Rightarrow> Inr ((r, if r = 0 then Some (val c') else None) # as, s)))"

locale bounded_fifo =
  fixes invar :: "'q \<Rightarrow> bool"
    and contents :: "'q \<Rightarrow> 'a list"
    and cap :: nat
    and fits :: "'b \<Rightarrow> bool"
    and elem :: "'b \<Rightarrow> 'a"
    and enq :: "'b \<Rightarrow> 'q \<Rightarrow> 'e + int \<times> 'q"
    and room :: "'c \<Rightarrow> bool"
    and value_of :: "'c \<Rightarrow> 'a"
    and deq :: "'c \<Rightarrow> 'q \<Rightarrow> 'e + int \<times> 'c \<times> 'q"
  assumes enq_room: "invar q \<Longrightarrow> fits b \<Longrightarrow> length (contents q) < cap \<Longrightarrow>
      \<exists>q'. enq b q = Inr (0, q') \<and> invar q' \<and> contents q' = contents q @ [elem b]"
    and enq_full: "invar q \<Longrightarrow> fits b \<Longrightarrow> \<not> length (contents q) < cap \<Longrightarrow> enq b q = Inr (-1, q)"
    and deq_some: "invar q \<Longrightarrow> room c \<Longrightarrow> contents q = x # xs \<Longrightarrow>
      \<exists>c' q'. deq c q = Inr (0, c', q') \<and> invar q' \<and> room c' \<and>
        contents q' = xs \<and> value_of c' = x"
    and deq_empty: "invar q \<Longrightarrow> room c \<Longrightarrow> contents q = [] \<Longrightarrow> deq c q = Inr (-1, c, q)"
begin

definition fits_op :: "'b queue_op \<Rightarrow> bool" where
  "fits_op opn = (case opn of Enq b \<Rightarrow> fits b | Deq \<Rightarrow> True)"

text \<open>One operation of the implementation against one step of the specification.\<close>

lemma enq_simulates:
  assumes "invar q" and "fits b"
  shows "\<exists>r q'. enq b q = Inr (r, q') \<and> invar q' \<and>
    fifo_step cap (Enq (elem b)) (contents q) = ((r, None), contents q')"
proof (cases "length (contents q) < cap")
  case True
  from enq_room [OF assms True] True show ?thesis by auto
next
  case False
  with enq_full [OF assms False] assms(1) show ?thesis by simp
qed

lemma deq_simulates:
  assumes "invar q" and "room c"
  shows "\<exists>r c' q'. deq c q = Inr (r, c', q') \<and> invar q' \<and> room c' \<and>
    fifo_step cap Deq (contents q) = ((r, if r = 0 then Some (value_of c') else None), contents q')"
proof (cases "contents q")
  case Nil
  with deq_empty [OF assms Nil] assms show ?thesis by simp
next
  case (Cons x xs)
  from deq_some [OF assms Cons] Cons show ?thesis by auto
qed

lemma run_simulates:
  assumes "invar q" and "room c" and "list_all fits_op opns"
  shows "\<exists>as q'. queue_run enq deq value_of opns c q = Inr (as, q') \<and> invar q' \<and>
    fifo_run cap (map (map_queue_op elem) opns) (contents q) = (as, contents q')"
  using assms
proof (induction opns arbitrary: c q)
  case (Cons opn opns)
  then have rest: "list_all fits_op opns" by simp
  show ?case
  proof (cases opn)
    case (Enq b)
    with Cons.prems(3) have "fits b" by (simp add: fits_op_def)
    then obtain r q' where one: "enq b q = Inr (r, q')" "invar q'"
        "fifo_step cap (Enq (elem b)) (contents q) = ((r, None), contents q')"
      using enq_simulates [OF Cons.prems(1)] by blast
    from Cons.IH [OF one(2) Cons.prems(2) rest] one Enq show ?thesis by auto
  next
    case Deq
    obtain r c' q' where one: "deq c q = Inr (r, c', q')" "invar q'" "room c'"
        "fifo_step cap Deq (contents q) = ((r, if r = 0 then Some (value_of c') else None), contents q')"
      using deq_simulates [OF Cons.prems(1,2)] by blast
    from Cons.IH [OF one(2,3) rest] one Deq show ?thesis by auto
  qed
qed simp

end

end
