(* ===== verification/Audit_Queue.thy ===== *)
theory Audit_Queue
  imports Bounded_Fifo
begin

text \<open>
  The ring buffer that \<^verbatim>\<open>src/qemu/linux/audit_qemu.patch\<close> adds to \<^verbatim>\<open>kernel/audit.c\<close>: the
  globals \<^verbatim>\<open>queue_head\<close>, \<^verbatim>\<open>queue_num\<close> and \<^verbatim>\<open>test_queue\<close> with the functions \<^verbatim>\<open>enqueue\<close> and
  \<^verbatim>\<open>dequeue\<close>. A slot is the 1024-byte array of \<^verbatim>\<open>struct queue\<close>; copying a longer string
  into it is the undefined behaviour \<^verbatim>\<open>Buffer_overflow\<close>. The theory shows that the ring
  buffer implements the bounded queue of \<^verbatim>\<open>Bounded_Fifo\<close> for records that fit a slot.
\<close>

section \<open>State and operations\<close>

definition QUEUE_SIZE :: int where
  "QUEUE_SIZE = 15000"

definition SLOT_SIZE :: nat where
  "SLOT_SIZE = 1024"

record ring =
  queue_head :: int
  queue_num :: int
  test_queue :: "int \<Rightarrow> char list"

text \<open>The zero-initialised globals.\<close>

definition ring_init :: ring where
  "ring_init = \<lparr>queue_head = 0, queue_num = 0, test_queue = (\<lambda>_. replicate SLOT_SIZE NUL)\<rparr>"

definition slot_index_ok :: "int \<Rightarrow> bool" where
  "slot_index_ok i \<longleftrightarrow> 0 \<le> i \<and> i < QUEUE_SIZE"

definition enqueue :: "char list \<Rightarrow> ring \<Rightarrow> (int \<times> ring) c_result" where
  "enqueue audit_log q =
     (case strlen audit_log of
        Inl e \<Rightarrow> Inl e
      | Inr len \<Rightarrow>
          if queue_num q < QUEUE_SIZE then
            (let i = (queue_head q + queue_num q) smod QUEUE_SIZE in
             if \<not> slot_index_ok i then Inl Buffer_overflow
             else case strcpy (test_queue q i) audit_log of
                    Inl e \<Rightarrow> Inl e
                  | Inr d \<Rightarrow>
                      Inr (0, q\<lparr>test_queue := (test_queue q)(i := d),
                                queue_num := queue_num q + 1\<rparr>))
          else Inr (-1, q))"

definition dequeue :: "char list \<Rightarrow> ring \<Rightarrow> (int \<times> char list \<times> ring) c_result" where
  "dequeue audit_log q =
     (if 0 < queue_num q then
        (if \<not> slot_index_ok (queue_head q) then Inl Out_of_bounds_read
         else case strcpy audit_log (test_queue q (queue_head q)) of
                Inl e \<Rightarrow> Inl e
              | Inr d \<Rightarrow>
                  Inr (0, d, q\<lparr>queue_head := (queue_head q + 1) smod QUEUE_SIZE,
                               queue_num := queue_num q - 1\<rparr>))
      else Inr (-1, audit_log, q))"

section \<open>Invariant and abstraction\<close>

definition slot_of :: "ring \<Rightarrow> int \<Rightarrow> int" where
  "slot_of q k = (queue_head q + k) mod QUEUE_SIZE"

definition ring_inv :: "ring \<Rightarrow> bool" where
  "ring_inv q \<longleftrightarrow>
     0 \<le> queue_head q \<and> queue_head q < QUEUE_SIZE \<and>
     0 \<le> queue_num q \<and> queue_num q \<le> QUEUE_SIZE \<and>
     (\<forall>i. length (test_queue q i) = SLOT_SIZE) \<and>
     (\<forall>k. 0 \<le> k \<and> k < queue_num q \<longrightarrow> NUL \<in> set (test_queue q (slot_of q k)))"

definition items :: "ring \<Rightarrow> string list" where
  "items q = map (\<lambda>k. cstr (test_queue q (slot_of q (int k)))) [0..<nat (queue_num q)]"

text \<open>A record that fits a slot: terminated, and at most 1023 characters.\<close>

definition fits_slot :: "char list \<Rightarrow> bool" where
  "fits_slot s \<longleftrightarrow> NUL \<in> set s \<and> length (cstr s) < SLOT_SIZE"

text \<open>The destination of \<^verbatim>\<open>dequeue\<close> has room for any slot.\<close>

definition slot_buffer :: "char list \<Rightarrow> bool" where
  "slot_buffer b \<longleftrightarrow> length b = SLOT_SIZE"

lemma QUEUE_SIZE_pos [simp]: "0 < QUEUE_SIZE"
  by (simp add: QUEUE_SIZE_def)

lemma length_items: "length (items q) = nat (queue_num q)"
  by (simp add: items_def)

lemma ring_inv_init [simp]: "ring_inv ring_init"
  by (simp add: ring_inv_def ring_init_def QUEUE_SIZE_def)

lemma items_init [simp]: "items ring_init = []"
  by (simp add: items_def ring_init_def)

lemma slot_of_ok [simp]: "slot_index_ok (slot_of q k)"
  by (simp add: slot_index_ok_def slot_of_def)

lemma slot_of_head: "ring_inv q \<Longrightarrow> slot_of q 0 = queue_head q"
  by (simp add: slot_of_def ring_inv_def)

lemma enqueue_slot:
  "ring_inv q \<Longrightarrow> (queue_head q + queue_num q) smod QUEUE_SIZE = slot_of q (queue_num q)"
  by (simp add: slot_of_def ring_inv_def smod_nonneg)

lemma slot_of_inj:
  assumes "slot_of q j = slot_of q k" "0 \<le> j" "j < QUEUE_SIZE" "0 \<le> k" "k < QUEUE_SIZE"
  shows "j = k"
  using assms mod_add_inj [of j QUEUE_SIZE k "queue_head q"] by (simp add: slot_of_def)

lemma items_length_less: "ring_inv q \<Longrightarrow> length (items q) < nat QUEUE_SIZE \<longleftrightarrow> queue_num q < QUEUE_SIZE"
  by (auto simp: length_items ring_inv_def)

section \<open>Enqueue\<close>

definition put :: "ring \<Rightarrow> char list \<Rightarrow> ring" where
  "put q d = q\<lparr>test_queue := (test_queue q)(slot_of q (queue_num q) := d),
               queue_num := queue_num q + 1\<rparr>"

lemma slot_of_put [simp]: "slot_of (put q d) k = slot_of q k"
  by (simp add: slot_of_def put_def)

lemma enqueue_put:
  assumes "ring_inv q" and "fits_slot s" and "queue_num q < QUEUE_SIZE"
  obtains d where "enqueue s q = Inr (0, put q d)" and "cstr d = cstr s"
    and "length d = SLOT_SIZE" and "NUL \<in> set d"
proof -
  have len: "length (test_queue q (slot_of q (queue_num q))) = SLOT_SIZE"
    using assms(1) by (simp add: ring_inv_def)
  then obtain d where d: "strcpy (test_queue q (slot_of q (queue_num q))) s = Inr d"
    using assms(2) by (auto simp: strcpy_iff fits_slot_def)
  show thesis
  proof (rule that)
    show "enqueue s q = Inr (0, put q d)"
      using assms d by (simp add: enqueue_def enqueue_slot fits_slot_def strlen_terminated put_def)
  qed (use strcpy_holds [OF d] len in simp_all)
qed

lemma put_old_slot:
  assumes "ring_inv q" "queue_num q < QUEUE_SIZE" "0 \<le> k" "k < queue_num q"
  shows "test_queue (put q d) (slot_of q k) = test_queue q (slot_of q k)"
  using assms slot_of_inj [of q k "queue_num q"] by (auto simp: put_def ring_inv_def)

lemma put_new_slot: "test_queue (put q d) (slot_of q (queue_num q)) = d"
  by (simp add: put_def)

lemma ring_inv_put:
  assumes "ring_inv q" and "queue_num q < QUEUE_SIZE" and "length d = SLOT_SIZE" and "NUL \<in> set d"
  shows "ring_inv (put q d)"
proof -
  have "NUL \<in> set (test_queue (put q d) (slot_of q k))" if "0 \<le> k" "k < queue_num q + 1" for k
  proof (cases "k = queue_num q")
    case True
    with assms(4) show ?thesis by (simp add: put_new_slot)
  next
    case False
    with that assms show ?thesis by (simp add: put_old_slot ring_inv_def)
  qed
  then show ?thesis using assms by (simp add: ring_inv_def put_def slot_of_def)
qed

lemma items_put:
  assumes "ring_inv q" and "queue_num q < QUEUE_SIZE"
  shows "items (put q d) = items q @ [cstr d]"
proof -
  have n: "nat (queue_num (put q d)) = Suc (nat (queue_num q))" "int (nat (queue_num q)) = queue_num q"
    using assms(1) by (simp_all add: put_def ring_inv_def nat_add_distrib)
  have "map (\<lambda>k. cstr (test_queue (put q d) (slot_of q (int k)))) [0..<nat (queue_num q)] = items q"
    unfolding items_def by (rule map_cong) (use assms put_old_slot in auto)
  with n show ?thesis by (simp add: items_def put_new_slot)
qed

section \<open>Dequeue\<close>

definition dropped :: "ring \<Rightarrow> ring" where
  "dropped q = q\<lparr>queue_head := (queue_head q + 1) smod QUEUE_SIZE, queue_num := queue_num q - 1\<rparr>"

lemma slot_of_dropped: "ring_inv q \<Longrightarrow> slot_of (dropped q) k = slot_of q (1 + k)"
  by (simp add: slot_of_def dropped_def ring_inv_def smod_nonneg mod_add_left_eq add.assoc)

lemma dequeue_drop:
  assumes "ring_inv q" and "slot_buffer b" and "0 < queue_num q"
  obtains d where "dequeue b q = Inr (0, d, dropped q)"
    and "cstr d = cstr (test_queue q (queue_head q))" and "slot_buffer d" and "NUL \<in> set d"
proof -
  have slot: "NUL \<in> set (test_queue q (queue_head q))" "length (test_queue q (queue_head q)) = SLOT_SIZE"
    using assms slot_of_head [of q] by (auto simp: ring_inv_def)
  then obtain d where d: "strcpy b (test_queue q (queue_head q)) = Inr d"
    using assms(2) cstr_length_less [OF slot(1)] by (auto simp: strcpy_iff slot_buffer_def)
  show thesis
  proof (rule that)
    show "dequeue b q = Inr (0, d, dropped q)"
      using assms d by (simp add: dequeue_def dropped_def slot_index_ok_def ring_inv_def)
  qed (use strcpy_holds [OF d] assms in \<open>simp_all add: slot_buffer_def\<close>)
qed

lemma ring_inv_dropped: "ring_inv q \<Longrightarrow> 0 < queue_num q \<Longrightarrow> ring_inv (dropped q)"
proof -
  assume inv: "ring_inv q" and pos: "0 < queue_num q"
  have "NUL \<in> set (test_queue q (slot_of (dropped q) k))" if "0 \<le> k" "k < queue_num q - 1" for k
    using inv that by (simp add: slot_of_dropped ring_inv_def)
  then show ?thesis
    using inv pos by (simp add: ring_inv_def dropped_def slot_of_def smod_nonneg)
qed

lemma items_Cons:
  assumes "ring_inv q" and "0 < queue_num q"
  shows "items q = cstr (test_queue q (queue_head q)) # items (dropped q)"
proof -
  have n: "nat (queue_num q) = Suc (nat (queue_num q - 1))" using assms by simp
  have "items q = cstr (test_queue q (slot_of q 0)) #
      map (\<lambda>k. cstr (test_queue q (slot_of q (int (Suc k))))) [0..<nat (queue_num q - 1)]"
    unfolding items_def n by (simp add: upt_conv_Cons map_Suc_upt [symmetric] comp_def del: upt_Suc)
  also have "\<dots> = cstr (test_queue q (queue_head q)) # items (dropped q)"
    using assms(1) slot_of_dropped [OF assms(1)]
    by (simp add: slot_of_head items_def dropped_def add.commute)
  finally show ?thesis .
qed

section \<open>The ring buffer is a bounded queue\<close>

interpretation audit: bounded_fifo ring_inv items "nat QUEUE_SIZE" fits_slot cstr enqueue
  slot_buffer cstr dequeue
proof
  fix q b
  assume q: "ring_inv q" "fits_slot b" and less: "length (items q) < nat QUEUE_SIZE"
  then have n: "queue_num q < QUEUE_SIZE" by (simp add: items_length_less)
  obtain d where "enqueue b q = Inr (0, put q d)" "cstr d = cstr b" "length d = SLOT_SIZE" "NUL \<in> set d"
    by (rule enqueue_put [OF q n])
  then show "\<exists>q'. enqueue b q = Inr (0, q') \<and> ring_inv q' \<and> items q' = items q @ [cstr b]"
    using q n by (auto simp: ring_inv_put items_put)
next
  fix q b
  assume "ring_inv q" "fits_slot b" "\<not> length (items q) < nat QUEUE_SIZE"
  then show "enqueue b q = Inr (-1, q)"
    by (simp add: items_length_less enqueue_def fits_slot_def strlen_terminated)
next
  fix q b x xs
  assume q: "ring_inv q" "slot_buffer b" and ne: "items q = x # xs"
  then have n: "0 < queue_num q" using length_items [of q] by simp
  obtain d where "dequeue b q = Inr (0, d, dropped q)" "cstr d = cstr (test_queue q (queue_head q))"
      "slot_buffer d" "NUL \<in> set d"
    by (rule dequeue_drop [OF q n])
  then show "\<exists>c' q'. dequeue b q = Inr (0, c', q') \<and> ring_inv q' \<and> slot_buffer c' \<and>
      items q' = xs \<and> cstr c' = x"
    using q n ne by (auto simp: ring_inv_dropped items_Cons)
next
  fix q b
  assume "ring_inv q" "slot_buffer b" "items q = []"
  then show "dequeue b q = Inr (-1, b, q)"
    using length_items [of q] by (simp add: dequeue_def ring_inv_def)
qed

section \<open>Properties\<close>

text \<open>
  C6: the ring buffer implements the bounded queue. Every sequence of \<^verbatim>\<open>enqueue\<close> and
  \<^verbatim>\<open>dequeue\<close> calls on the zero-initialised globals, with records of at most 1023 characters
  and a 1024-byte destination, runs without a memory error, answers each call with the
  return code and the record that a 15000-element list queue answers, and ends with the
  list's contents in the buffer.
\<close>

theorem audit_ring_refines_fifo:
  assumes "list_all (\<lambda>opn. case opn of Enq s \<Rightarrow> fits_slot s | Deq \<Rightarrow> True) opns" and "slot_buffer b"
  shows "\<exists>as q. queue_run enqueue dequeue cstr opns b ring_init = Inr (as, q) \<and> ring_inv q \<and>
    fifo_run 15000 (map (map_queue_op cstr) opns) [] = (as, items q)"
proof -
  have "list_all audit.fits_op opns"
    using assms(1) by (simp add: audit.fits_op_def [abs_def])
  then show ?thesis
    using audit.run_simulates [of ring_init b opns] assms(2) by (simp add: QUEUE_SIZE_def)
qed

theorem audit_ring_refines_fifo_witness:
  "\<exists>as q. queue_run enqueue dequeue cstr [Enq (lit ''a''), Enq (lit ''bc''), Deq]
      (replicate SLOT_SIZE NUL) ring_init = Inr (as, q) \<and> ring_inv q \<and>
    fifo_run 15000 (map (map_queue_op cstr) [Enq (lit ''a''), Enq (lit ''bc''), Deq]) [] = (as, items q)"
proof (rule audit_ring_refines_fifo)
  show "list_all (\<lambda>opn. case opn of Enq s \<Rightarrow> fits_slot s | Deq \<Rightarrow> True)
      [Enq (lit ''a''), Enq (lit ''bc''), Deq]"
    by (simp add: fits_slot_def SLOT_SIZE_def)
  show "slot_buffer (replicate SLOT_SIZE NUL)"
    by (simp add: slot_buffer_def)
qed

text \<open>
  First in, first out and nothing lost inside the buffer: in every such run the records
  accepted by \<^verbatim>\<open>enqueue\<close> (return code 0), in order, are the records handed out by \<^verbatim>\<open>dequeue\<close>
  followed by the records still in the ring, of which there are at most 15000.
\<close>

theorem audit_ring_fifo_order:
  assumes "list_all (\<lambda>opn. case opn of Enq s \<Rightarrow> fits_slot s | Deq \<Rightarrow> True) opns" and "slot_buffer b"
    and "queue_run enqueue dequeue cstr opns b ring_init = Inr (as, q)"
  shows "accepted (map (map_queue_op cstr) opns) as = delivered as @ items q \<and> length (items q) \<le> 15000"
proof -
  have ok: "list_all audit.fits_op opns"
    using assms(1) by (simp add: audit.fits_op_def [abs_def])
  then have run: "fifo_run 15000 (map (map_queue_op cstr) opns) [] = (as, items q)"
    using audit.run_simulates [of ring_init b opns] assms(2,3) by (simp add: QUEUE_SIZE_def)
  show ?thesis
    using fifo_run_conserves [OF run] fifo_run_bound [of "[]" 15000 "map (map_queue_op cstr) opns"] run
    by simp
qed

lemma two_deep_run:
  "queue_run enqueue dequeue cstr [Enq (lit ''a''), Enq (lit ''b''), Deq] (replicate SLOT_SIZE NUL) ring_init =
    Inr ([(0, None), (0, None), (0, Some ''a'')],
      dropped (ring_init\<lparr>queue_num := 2,
        test_queue := (test_queue ring_init)(0 := lit ''a'' @ replicate 1022 NUL,
                                             1 := lit ''b'' @ replicate 1022 NUL)\<rparr>))"
  by (simp add: enqueue_def dequeue_def strcpy_eq ring_init_def slot_index_ok_def QUEUE_SIZE_def
      smod_nonneg strlen_terminated SLOT_SIZE_def dropped_def cstr_append lit_def cstr_def)

theorem audit_ring_fifo_order_witness:
  "\<exists>as q. queue_run enqueue dequeue cstr [Enq (lit ''a''), Enq (lit ''b''), Deq]
      (replicate SLOT_SIZE NUL) ring_init = Inr (as, q) \<and> delivered as = [''a''] \<and> items q = [''b'']"
proof -
  define opns where "opns = [Enq (lit ''a''), Enq (lit ''b''), Deq]"
  obtain as q where r: "queue_run enqueue dequeue cstr opns (replicate SLOT_SIZE NUL) ring_init = Inr (as, q)"
      "as = [(0, None), (0, None), (0, Some ''a'')]"
    unfolding opns_def using two_deep_run by blast
  have "accepted (map (map_queue_op cstr) opns) as = delivered as @ items q \<and> length (items q) \<le> 15000"
    by (rule audit_ring_fifo_order [OF _ _ r(1)])
       (simp_all add: opns_def fits_slot_def slot_buffer_def SLOT_SIZE_def)
  then show ?thesis using r by (auto simp: opns_def)
qed

text \<open>
  C35: a record of 1024 or more characters overruns its slot whenever the buffer is not full:
  \<^verbatim>\<open>enqueue\<close> computes the record's length but never compares it with the slot's size before
  \<^verbatim>\<open>strcpy\<close>. Kernel audit records are not limited to 1023 characters.
\<close>

theorem enqueue_long_record_overflows:
  assumes "ring_inv q" and "queue_num q < QUEUE_SIZE" and "NUL \<in> set s" and "1024 \<le> length (cstr s)"
  shows "enqueue s q = Inl Buffer_overflow"
  using assms
  by (simp add: enqueue_def enqueue_slot strlen_terminated strcpy_eq ring_inv_def SLOT_SIZE_def)

theorem enqueue_long_record_overflows_witness:
  "enqueue (replicate 1024 (CHR ''x'') @ [NUL]) ring_init = Inl Buffer_overflow"
  by (rule enqueue_long_record_overflows)
     (simp_all add: ring_init_def QUEUE_SIZE_def cstr_append ring_inv_init [unfolded ring_init_def])

text \<open>
  The index arithmetic stays in the range of C's \<^verbatim>\<open>int\<close> and of the array: in every state
  a run can reach, \<^verbatim>\<open>queue_head + queue_num\<close> and \<^verbatim>\<open>queue_head + 1\<close> are non-negative and below
  \<^verbatim>\<open>2^31\<close>, and both indices the code computes lie within the 15000 slots.
\<close>

theorem audit_ring_index_bounds:
  assumes "list_all (\<lambda>opn. case opn of Enq s \<Rightarrow> fits_slot s | Deq \<Rightarrow> True) opns" and "slot_buffer b"
    and "queue_run enqueue dequeue cstr opns b ring_init = Inr (as, q)"
  shows "0 \<le> queue_head q + queue_num q \<and> queue_head q + queue_num q < 2 ^ 31 \<and>
    0 \<le> queue_head q + 1 \<and> queue_head q + 1 < 2 ^ 31 \<and>
    slot_index_ok ((queue_head q + queue_num q) smod QUEUE_SIZE) \<and> slot_index_ok (queue_head q)"
proof -
  have "list_all audit.fits_op opns"
    using assms(1) by (simp add: audit.fits_op_def [abs_def])
  then have "ring_inv q"
    using audit.run_simulates [of ring_init b opns] assms(2,3) by auto
  then show ?thesis
    by (simp add: enqueue_slot) (simp add: ring_inv_def slot_index_ok_def QUEUE_SIZE_def)
qed

theorem audit_ring_index_bounds_witness:
  "\<exists>as q. queue_run enqueue dequeue cstr [Enq (lit ''a''), Enq (lit ''b''), Deq]
      (replicate SLOT_SIZE NUL) ring_init = Inr (as, q) \<and> slot_index_ok (queue_head q)"
proof -
  define opns where "opns = [Enq (lit ''a''), Enq (lit ''b''), Deq]"
  obtain as q where r: "queue_run enqueue dequeue cstr opns (replicate SLOT_SIZE NUL) ring_init = Inr (as, q)"
    unfolding opns_def using two_deep_run by blast
  have "slot_index_ok (queue_head q)"
    using audit_ring_index_bounds [OF _ _ r]
    by (simp add: opns_def fits_slot_def slot_buffer_def SLOT_SIZE_def)
  with r show ?thesis by (auto simp: opns_def)
qed

end
