(* ===== verification/C_Preprocessor.thy ===== *)
theory C_Preprocessor
  imports Tee_Prelude
begin

text \<open>
  The part of C's preprocessor and declaration rules that decides what a compiler sees of
  the headers under \<^verbatim>\<open>src/qemu/linux\<close>: \<^verbatim>\<open>#ifndef\<close> guards, \<^verbatim>\<open>#define\<close>, \<^verbatim>\<open>#include\<close> and the
  declarations between them, with the errors a compiler reports for a repeated definition.
  Struct declarations carry their fields, so that sizes follow from C's layout rules.
  The locale \<^verbatim>\<open>include_guard\<close> is the contract of a guarded header: a second occurrence of
  its text changes nothing.
\<close>

section \<open>Headers as lists of lines\<close>

datatype ctype =
    T_u32 | T_u64 | T_int | T_bool | T_size_t | T_phys_addr_t
  | T_ptr string
  | T_struct string
  | T_union "(ctype \<times> string) list"
  | T_array ctype nat

datatype macro_body =
    M_empty
  | M_num nat
  | M_bit nat
  | M_genmask nat nat
  | M_fun "string list" string

datatype pp_line =
    Ifndef string
  | Endif
  | Include string
  | Define string macro_body
  | Struct string "(ctype \<times> string) list"
  | Typedef string "string list"
  | Proto string "string list"
  | Inline string "string list"

datatype pp_error = Redefined string | Redeclared string | Unbalanced_endif

record tu =
  macros :: "(string \<times> macro_body) list"
  structs :: "(string \<times> (ctype \<times> string) list) list"
  idents :: "(string \<times> string list) list"
  conds :: "bool list"

definition empty_tu :: tu where
  "empty_tu = \<lparr>macros = [], structs = [], idents = [], conds = []\<rparr>"

definition active :: "tu \<Rightarrow> bool" where
  "active t \<longleftrightarrow> False \<notin> set (conds t)"

text \<open>
  One line. A repeated \<^verbatim>\<open>#define\<close> and a repeated definition of a struct, typedef or inline
  function are errors; a prototype may be repeated with the same signature (its return
  type and parameter types, in the order of the source).
\<close>

fun pp_step :: "pp_line \<Rightarrow> tu \<Rightarrow> pp_error + tu" where
  "pp_step (Ifndef g) t = Inr (t\<lparr>conds := (active t \<and> map_of (macros t) g = None) # conds t\<rparr>)"
| "pp_step Endif t =
     (case conds t of [] \<Rightarrow> Inl Unbalanced_endif | _ # cs \<Rightarrow> Inr (t\<lparr>conds := cs\<rparr>))"
| "pp_step (Include f) t = Inr t"
| "pp_step (Define m b) t =
     (if \<not> active t then Inr t
      else if map_of (macros t) m \<noteq> None then Inl (Redefined m)
      else Inr (t\<lparr>macros := (m, b) # macros t\<rparr>))"
| "pp_step (Struct s fs) t =
     (if \<not> active t then Inr t
      else if map_of (structs t) s \<noteq> None then Inl (Redeclared s)
      else Inr (t\<lparr>structs := (s, fs) # structs t\<rparr>))"
| "pp_step (Typedef f sg) t =
     (if \<not> active t then Inr t
      else if map_of (idents t) f \<noteq> None then Inl (Redeclared f)
      else Inr (t\<lparr>idents := (f, sg) # idents t\<rparr>))"
| "pp_step (Proto f sg) t =
     (if \<not> active t then Inr t
      else case map_of (idents t) f of
             None \<Rightarrow> Inr (t\<lparr>idents := (f, sg) # idents t\<rparr>)
           | Some sg' \<Rightarrow> if sg = sg' then Inr t else Inl (Redeclared f))"
| "pp_step (Inline f sg) t =
     (if \<not> active t then Inr t
      else if map_of (idents t) f \<noteq> None then Inl (Redeclared f)
      else Inr (t\<lparr>idents := (f, sg) # idents t\<rparr>))"

fun pp_run :: "pp_line list \<Rightarrow> tu \<Rightarrow> pp_error + tu" where
  "pp_run [] t = Inr t"
| "pp_run (l # ls) t = (case pp_step l t of Inl e \<Rightarrow> Inl e | Inr t' \<Rightarrow> pp_run ls t')"

lemma pp_run_append:
  "pp_run (ls @ ls') t = (case pp_run ls t of Inl e \<Rightarrow> Inl e | Inr t' \<Rightarrow> pp_run ls' t')"
  by (induction ls arbitrary: t) (auto split: sum.splits)

text \<open>
  \<^verbatim>\<open>#include\<close> of a file whose text is given is replaced by that text (one level: the files
  at hand include each other once); other includes are outside the repository.
\<close>

definition expand :: "(string \<times> pp_line list) list \<Rightarrow> pp_line list \<Rightarrow> pp_line list" where
  "expand files ls =
     concat (map (\<lambda>l. case l of
                        Include f \<Rightarrow> (case map_of files f of None \<Rightarrow> [l] | Some ls' \<Rightarrow> ls')
                      | _ \<Rightarrow> [l]) ls)"

lemma expand_append: "expand fs (ls @ ls') = expand fs ls @ expand fs ls'"
  by (simp add: expand_def)

section \<open>Include guards\<close>

fun balanced :: "nat \<Rightarrow> pp_line list \<Rightarrow> bool" where
  "balanced n [] = (n = 0)"
| "balanced n (l # ls) =
     (case l of
        Ifndef _ \<Rightarrow> balanced (Suc n) ls
      | Endif \<Rightarrow> (case n of 0 \<Rightarrow> False | Suc m \<Rightarrow> balanced m ls)
      | _ \<Rightarrow> balanced n ls)"

lemma balanced_append:
  "balanced n ls \<Longrightarrow> balanced m ls' \<Longrightarrow> balanced (n + m) (ls @ ls')"
  by (induction n ls arbitrary: m rule: balanced.induct)
     (auto split: pp_line.splits nat.splits)

lemma skip_inactive:
  assumes "balanced (length ds) ls" and "False \<in> set cs"
  shows "pp_run ls (t\<lparr>conds := ds @ cs\<rparr>) = Inr (t\<lparr>conds := cs\<rparr>)"
  using assms
proof (induction ls arbitrary: ds)
  case (Cons l ls)
  have inactive: "\<not> active (t\<lparr>conds := ds @ cs\<rparr>)"
    using Cons.prems(2) by (simp add: active_def)
  show ?case
  proof (cases l)
    case (Ifndef g)
    with Cons.prems Cons.IH [of "False # ds"] inactive show ?thesis by simp
  next
    case Endif
    with Cons.prems Cons.IH [of "tl ds"] show ?thesis by (cases ds) simp_all
  qed (use Cons.prems Cons.IH [of ds] inactive in simp_all)
qed simp

definition guarded :: "string \<Rightarrow> pp_line list \<Rightarrow> pp_line list" where
  "guarded g body = Ifndef g # Define g M_empty # body @ [Endif]"

locale include_guard =
  fixes guard :: string and body :: "pp_line list"
  assumes body_balanced: "balanced 0 body"
begin

lemma guarded_balanced: "balanced 0 (guarded guard body)"
  using balanced_append [of 0 body 1 "[Endif]"] body_balanced by (simp add: guarded_def)

text \<open>Where the guard is defined, the whole text is skipped.\<close>

lemma included_again:
  assumes "map_of (macros t) guard \<noteq> None" and "active t"
  shows "pp_run (guarded guard body) t = Inr t"
proof -
  let ?u = "t\<lparr>conds := [] @ (False # conds t)\<rparr>"
  have "pp_run body ?u = Inr (t\<lparr>conds := False # conds t\<rparr>)"
    using body_balanced by (intro skip_inactive) simp_all
  moreover have "\<not> active ?u" by (simp add: active_def)
  ultimately have "pp_run (Define guard M_empty # body @ [Endif]) ?u = Inr t"
    by (simp add: pp_run_append)
  moreover have "pp_step (Ifndef guard) t = Inr ?u"
    using assms by auto
  ultimately show ?thesis by (simp add: guarded_def del: pp_step.simps)
qed

text \<open>Any number of further copies changes nothing.\<close>

lemma copies_again:
  assumes "map_of (macros t) guard \<noteq> None" and "active t"
  shows "pp_run (concat (replicate n (guarded guard body))) t = Inr t"
  by (induction n) (simp_all add: pp_run_append included_again [OF assms])

end

section \<open>Text without conditionals\<close>

definition defs_of :: "pp_line list \<Rightarrow> (string \<times> macro_body) list" where
  "defs_of ls = List.map_filter (\<lambda>l. case l of Define m b \<Rightarrow> Some (m, b) | _ \<Rightarrow> None) ls"

definition structs_of :: "pp_line list \<Rightarrow> (string \<times> (ctype \<times> string) list) list" where
  "structs_of ls = List.map_filter (\<lambda>l. case l of Struct s fs \<Rightarrow> Some (s, fs) | _ \<Rightarrow> None) ls"

definition idents_of :: "pp_line list \<Rightarrow> (string \<times> string list) list" where
  "idents_of ls = List.map_filter
     (\<lambda>l. case l of Typedef f sg \<Rightarrow> Some (f, sg) | Proto f sg \<Rightarrow> Some (f, sg)
                  | Inline f sg \<Rightarrow> Some (f, sg) | _ \<Rightarrow> None) ls"

lemmas text_defs = defs_of_def structs_of_def idents_of_def List.map_filter_def

lemma text_append:
  "defs_of (xs @ ys) = defs_of xs @ defs_of ys"
  "structs_of (xs @ ys) = structs_of xs @ structs_of ys"
  "idents_of (xs @ ys) = idents_of xs @ idents_of ys"
  by (simp_all add: text_defs)

definition flat :: "pp_line list \<Rightarrow> bool" where
  "flat ls = list_all (\<lambda>l. case l of Ifndef _ \<Rightarrow> False | Endif \<Rightarrow> False | _ \<Rightarrow> True) ls"

text \<open>No name of the text is declared twice, by the text or before it.\<close>

definition fresh_in :: "tu \<Rightarrow> pp_line list \<Rightarrow> bool" where
  "fresh_in t ls \<longleftrightarrow>
     distinct (map fst (defs_of ls)) \<and> set (map fst (defs_of ls)) \<inter> set (map fst (macros t)) = {} \<and>
     distinct (map fst (structs_of ls)) \<and> set (map fst (structs_of ls)) \<inter> set (map fst (structs t)) = {} \<and>
     distinct (map fst (idents_of ls)) \<and> set (map fst (idents_of ls)) \<inter> set (map fst (idents t)) = {}"

definition add_text :: "pp_line list \<Rightarrow> tu \<Rightarrow> tu" where
  "add_text ls t = t\<lparr>macros := rev (defs_of ls) @ macros t,
                     structs := rev (structs_of ls) @ structs t,
                     idents := rev (idents_of ls) @ idents t\<rparr>"

lemma add_text_Cons: "add_text (l # ls) t = add_text ls (add_text [l] t)"
  by (simp add: add_text_def text_defs)

lemma active_add_text [simp]: "active (add_text ls t) = active t"
  by (simp add: active_def add_text_def)

lemma fresh_in_Cons: "fresh_in t (l # ls) \<Longrightarrow> fresh_in t [l] \<and> fresh_in (add_text [l] t) ls"
  by (cases l) (auto simp: fresh_in_def add_text_def text_defs)

lemma pp_step_flat:
  assumes "flat [l]" and "fresh_in t [l]" and "active t"
  shows "pp_step l t = Inr (add_text [l] t)"
proof -
  have none: "x \<notin> set (map fst kvs) \<Longrightarrow> map_of kvs x = None" for x and kvs :: "(string \<times> 'v) list"
    by (simp add: map_of_eq_None_iff)
  show ?thesis
    using assms by (cases l) (auto simp: flat_def fresh_in_def add_text_def text_defs none)
qed

lemma pp_run_flat:
  "flat ls \<Longrightarrow> fresh_in t ls \<Longrightarrow> active t \<Longrightarrow> pp_run ls t = Inr (add_text ls t)"
proof (induction ls arbitrary: t)
  case (Cons l ls)
  then have "flat [l]" "flat ls" "fresh_in t [l]" "fresh_in (add_text [l] t) ls"
    using fresh_in_Cons by (auto simp: flat_def)
  with Cons show ?case by (simp add: pp_step_flat add_text_Cons [of l ls])
qed (simp add: add_text_def text_defs)

lemma flat_balanced: "flat ls \<Longrightarrow> balanced 0 ls"
  by (induction ls) (auto simp: flat_def split: pp_line.splits)

text \<open>The first time a guarded text is read, its lines take effect.\<close>

lemma guarded_first:
  assumes "map_of (macros t) g = None" and "active t"
    and "flat body" and "fresh_in (t\<lparr>macros := (g, M_empty) # macros t\<rparr>) body"
  shows "pp_run (guarded g body) t = Inr (add_text body (t\<lparr>macros := (g, M_empty) # macros t\<rparr>))"
proof -
  let ?t = "t\<lparr>conds := True # conds t, macros := (g, M_empty) # macros t\<rparr>"
  have "fresh_in ?t body" using assms(4) by (simp add: fresh_in_def)
  then have "pp_run body ?t = Inr (add_text body ?t)"
    using assms by (intro pp_run_flat) (simp_all add: active_def)
  with assms show ?thesis by (simp add: guarded_def pp_run_append active_def add_text_def)
qed

section \<open>Macro values\<close>

text \<open>\<^verbatim>\<open>BIT(n)\<close> and \<^verbatim>\<open>GENMASK(h, l)\<close> of \<^verbatim>\<open>linux/bitops.h\<close>.\<close>

fun body_value :: "macro_body \<Rightarrow> int option" where
  "body_value (M_num n) = Some (int n)"
| "body_value (M_bit n) = Some (2 ^ n)"
| "body_value (M_genmask h l) = Some (2 ^ Suc h - 2 ^ l)"
| "body_value _ = None"

definition macro_value :: "pp_line list \<Rightarrow> string \<Rightarrow> int option" where
  "macro_value ls m =
     (case pp_run ls empty_tu of
        Inl e \<Rightarrow> None
      | Inr t \<Rightarrow> Option.bind (map_of (macros t) m) body_value)"

section \<open>Struct layout\<close>

text \<open>
  Size and alignment on AArch64 (LP64): scalars are aligned to their size, a struct to its
  strictest field, with padding before each field and at the end. The environment gives the
  structs declared so far.
\<close>

definition round_up :: "nat \<Rightarrow> nat \<Rightarrow> nat" where
  "round_up n a = ((n + a - 1) div a) * a"

fun size_align :: "(string \<times> nat \<times> nat) list \<Rightarrow> ctype \<Rightarrow> (nat \<times> nat) option"
  and union_layout :: "(string \<times> nat \<times> nat) list \<Rightarrow> (ctype \<times> string) list \<Rightarrow> (nat \<times> nat) option" where
  "size_align env T_u32 = Some (4, 4)"
| "size_align env T_u64 = Some (8, 8)"
| "size_align env T_int = Some (4, 4)"
| "size_align env T_bool = Some (1, 1)"
| "size_align env T_size_t = Some (8, 8)"
| "size_align env T_phys_addr_t = Some (8, 8)"
| "size_align env (T_ptr _) = Some (8, 8)"
| "size_align env (T_struct s) = map_of env s"
| "size_align env (T_array t n) = map_option (\<lambda>(s, a). (s * n, a)) (size_align env t)"
| "size_align env (T_union fs) = map_option (\<lambda>(s, a). (round_up s a, a)) (union_layout env fs)"
| "union_layout env [] = Some (0, 1)"
| "union_layout env ((t, _) # fs) =
     (case (size_align env t, union_layout env fs) of
        (Some (s, a), Some (s', a')) \<Rightarrow> Some (max s s', max a a')
      | _ \<Rightarrow> None)"

text \<open>The offsets of the fields, the end of the last field and the alignment.\<close>

fun field_offsets ::
    "(string \<times> nat \<times> nat) list \<Rightarrow> (ctype \<times> string) list \<Rightarrow> nat \<Rightarrow> nat \<Rightarrow> ((string \<times> nat) list \<times> nat \<times> nat) option" where
  "field_offsets env [] off al = Some ([], off, al)"
| "field_offsets env ((t, f) # fs) off al =
     (case size_align env t of
        None \<Rightarrow> None
      | Some (s, a) \<Rightarrow>
          (let o' = round_up off a in
           map_option (\<lambda>(os, e, al'). ((f, o') # os, e, al')) (field_offsets env fs (o' + s) (max al a))))"

definition struct_layout :: "(string \<times> nat \<times> nat) list \<Rightarrow> (ctype \<times> string) list \<Rightarrow> (nat \<times> nat) option" where
  "struct_layout env fs = map_option (\<lambda>(_, e, al). (round_up e al, al)) (field_offsets env fs 0 1)"

text \<open>The layouts of a translation unit's structs, in the order of declaration.\<close>

fun layouts :: "(string \<times> (ctype \<times> string) list) list \<Rightarrow> (string \<times> nat \<times> nat) list" where
  "layouts [] = []"
| "layouts ((s, fs) # older) =
     (let env = layouts older in
      case struct_layout env fs of None \<Rightarrow> env | Some sa \<Rightarrow> (s, sa) # env)"

definition sizeof_struct :: "pp_line list \<Rightarrow> string \<Rightarrow> nat option" where
  "sizeof_struct ls s =
     (case pp_run ls empty_tu of
        Inl e \<Rightarrow> None
      | Inr t \<Rightarrow> map_option fst (map_of (layouts (structs t)) s))"

end
