(* ===== verification/Optee_Msg.thy ===== *)
theory Optee_Msg
  imports C_Preprocessor
begin

text \<open>
  \<^verbatim>\<open>src/qemu/linux/optee_msg.h\<close>, the OP-TEE message protocol header that the patched kernel
  compiles \<^verbatim>\<open>audit.c\<close> against. The file as committed holds the same 447 lines eight times
  over. Its macros, structs and guard are transcribed line by line, copy by copy, and run
  through the preprocessor of \<^verbatim>\<open>C_Preprocessor\<close>; the parameter attributes and the message
  structures are then modelled as values.
\<close>

section \<open>The text of the header\<close>

definition optee_msg_h_formatting :: "pp_line list" where
  "optee_msg_h_formatting =
     [Include ''linux/bitops.h'',
      Include ''linux/types.h'',
      Define ''OPTEE_MSG_ATTR_TYPE_NONE'' (M_num 0x0),
      Define ''OPTEE_MSG_ATTR_TYPE_VALUE_INPUT'' (M_num 0x1),
      Define ''OPTEE_MSG_ATTR_TYPE_VALUE_OUTPUT'' (M_num 0x2),
      Define ''OPTEE_MSG_ATTR_TYPE_VALUE_INOUT'' (M_num 0x3),
      Define ''OPTEE_MSG_ATTR_TYPE_RMEM_INPUT'' (M_num 0x5),
      Define ''OPTEE_MSG_ATTR_TYPE_RMEM_OUTPUT'' (M_num 0x6),
      Define ''OPTEE_MSG_ATTR_TYPE_RMEM_INOUT'' (M_num 0x7),
      Define ''OPTEE_MSG_ATTR_TYPE_TMEM_INPUT'' (M_num 0x9),
      Define ''OPTEE_MSG_ATTR_TYPE_TMEM_OUTPUT'' (M_num 0xa),
      Define ''OPTEE_MSG_ATTR_TYPE_TMEM_INOUT'' (M_num 0xb),
      Define ''OPTEE_MSG_ATTR_TYPE_MASK'' (M_genmask 7 0),
      Define ''OPTEE_MSG_ATTR_META'' (M_bit 8),
      Define ''OPTEE_MSG_ATTR_NONCONTIG'' (M_bit 9),
      Define ''OPTEE_MSG_ATTR_CACHE_SHIFT'' (M_num 16),
      Define ''OPTEE_MSG_ATTR_CACHE_MASK'' (M_genmask 2 0),
      Define ''OPTEE_MSG_ATTR_CACHE_PREDEFINED'' (M_num 0),
      Define ''OPTEE_MSG_LOGIN_PUBLIC'' (M_num 0x00000000),
      Define ''OPTEE_MSG_LOGIN_USER'' (M_num 0x00000001),
      Define ''OPTEE_MSG_LOGIN_GROUP'' (M_num 0x00000002),
      Define ''OPTEE_MSG_LOGIN_APPLICATION'' (M_num 0x00000004),
      Define ''OPTEE_MSG_LOGIN_APPLICATION_USER'' (M_num 0x00000005),
      Define ''OPTEE_MSG_LOGIN_APPLICATION_GROUP'' (M_num 0x00000006),
      Define ''OPTEE_MSG_NONCONTIG_PAGE_SIZE'' (M_num 4096)]"

definition optee_msg_h_structs :: "pp_line list" where
  "optee_msg_h_structs =
     [Struct ''optee_msg_param_tmem''
       [(T_u64, ''buf_ptr''),
        (T_u64, ''size''),
        (T_u64, ''shm_ref'')],
      Struct ''optee_msg_param_rmem''
       [(T_u64, ''offs''),
        (T_u64, ''size''),
        (T_u64, ''shm_ref'')],
      Struct ''optee_msg_param_value''
       [(T_u64, ''a''),
        (T_u64, ''b''),
        (T_u64, ''c'')],
      Struct ''optee_msg_param''
       [(T_u64, ''attr''),
        (T_union [(T_struct ''optee_msg_param_tmem'', ''tmem''),
                  (T_struct ''optee_msg_param_rmem'', ''rmem''),
                  (T_struct ''optee_msg_param_value'', ''value'')], ''u'')],
      Struct ''optee_msg_arg''
       [(T_u32, ''cmd''),
        (T_u32, ''func''),
        (T_u32, ''session''),
        (T_u32, ''cancel_id''),
        (T_u32, ''pad''),
        (T_u32, ''ret''),
        (T_u32, ''ret_origin''),
        (T_u32, ''num_params''),
        (T_array (T_struct ''optee_msg_param'') 0, ''params'')],
      Define ''OPTEE_MSG_GET_ARG_SIZE'' (M_fun [''num_params''] ''(sizeof(struct optee_msg_arg) + sizeof(struct optee_msg_param) * (num_params))'')]"

definition optee_msg_h_requests :: "pp_line list" where
  "optee_msg_h_requests =
     [Define ''OPTEE_MSG_UID_0'' (M_num 0x384fb3e0),
      Define ''OPTEE_MSG_UID_1'' (M_num 0xe7f811e3),
      Define ''OPTEE_MSG_UID_2'' (M_num 0xaf630002),
      Define ''OPTEE_MSG_UID_3'' (M_num 0xa5d5c51b),
      Define ''OPTEE_MSG_FUNCID_CALLS_UID'' (M_num 0xff01),
      Define ''OPTEE_MSG_REVISION_MAJOR'' (M_num 2),
      Define ''OPTEE_MSG_REVISION_MINOR'' (M_num 0),
      Define ''OPTEE_MSG_FUNCID_CALLS_REVISION'' (M_num 0xff03),
      Define ''OPTEE_MSG_OS_OPTEE_UUID_0'' (M_num 0x486178e0),
      Define ''OPTEE_MSG_OS_OPTEE_UUID_1'' (M_num 0xe7f811e3),
      Define ''OPTEE_MSG_OS_OPTEE_UUID_2'' (M_num 0xbc5e0002),
      Define ''OPTEE_MSG_OS_OPTEE_UUID_3'' (M_num 0xa5d5c51b),
      Define ''OPTEE_MSG_FUNCID_GET_OS_UUID'' (M_num 0x0000),
      Define ''OPTEE_MSG_FUNCID_GET_OS_REVISION'' (M_num 0x0001),
      Define ''OPTEE_MSG_CMD_OPEN_SESSION'' (M_num 0),
      Define ''OPTEE_MSG_CMD_INVOKE_COMMAND'' (M_num 1),
      Define ''OPTEE_MSG_CMD_CLOSE_SESSION'' (M_num 2),
      Define ''OPTEE_MSG_CMD_CANCEL'' (M_num 3),
      Define ''OPTEE_MSG_CMD_REGISTER_SHM'' (M_num 4),
      Define ''OPTEE_MSG_CMD_UNREGISTER_SHM'' (M_num 5),
      Define ''OPTEE_MSG_FUNCID_CALL_WITH_ARG'' (M_num 0x0004)]"

definition optee_msg_h_rpc :: "pp_line list" where
  "optee_msg_h_rpc =
     [Define ''OPTEE_MSG_RPC_CMD_LOAD_TA'' (M_num 0),
      Define ''OPTEE_MSG_RPC_CMD_RPMB'' (M_num 1),
      Define ''OPTEE_MSG_RPC_CMD_FS'' (M_num 2),
      Define ''OPTEE_MSG_RPC_CMD_GET_TIME'' (M_num 3),
      Define ''OPTEE_MSG_RPC_CMD_WAIT_QUEUE'' (M_num 4),
      Define ''OPTEE_MSG_RPC_WAIT_QUEUE_SLEEP'' (M_num 0),
      Define ''OPTEE_MSG_RPC_WAIT_QUEUE_WAKEUP'' (M_num 1),
      Define ''OPTEE_MSG_RPC_CMD_SUSPEND'' (M_num 5),
      Define ''OPTEE_MSG_RPC_CMD_SHM_ALLOC'' (M_num 6),
      Define ''OPTEE_MSG_RPC_SHM_TYPE_APPL'' (M_num 0),
      Define ''OPTEE_MSG_RPC_SHM_TYPE_KERNEL'' (M_num 1),
      Define ''OPTEE_MSG_RPC_SHM_TYPE_GLOBAL'' (M_num 2),
      Define ''OPTEE_MSG_RPC_SHM_TYPE_CLIENT_APPL'' (M_num 3),
      Define ''OPTEE_MSG_RPC_CMD_SHM_FREE'' (M_num 7),
      Define ''OPTEE_MSG_RPC_CMD_BENCH_REG'' (M_num 20),
      Define ''OPTEE_MSG_RPC_CMD_OCALL'' (M_num 22)]"


definition optee_msg_h_body :: "pp_line list" where
  "optee_msg_h_body =
     optee_msg_h_formatting @ optee_msg_h_structs @ optee_msg_h_requests @ optee_msg_h_rpc"

text \<open>The first copy, lines 1 to 447, and the seven repetitions that follow it.\<close>

definition optee_msg_h_copy1 :: "pp_line list" where
  "optee_msg_h_copy1 = guarded ''_OPTEE_MSG_H'' optee_msg_h_body"

definition optee_msg_h_copy2 :: "pp_line list" where
  "optee_msg_h_copy2 = optee_msg_h_copy1"

definition optee_msg_h_copy3 :: "pp_line list" where
  "optee_msg_h_copy3 = optee_msg_h_copy1"

definition optee_msg_h_copy4 :: "pp_line list" where
  "optee_msg_h_copy4 = optee_msg_h_copy1"

definition optee_msg_h_copy5 :: "pp_line list" where
  "optee_msg_h_copy5 = optee_msg_h_copy1"

definition optee_msg_h_copy6 :: "pp_line list" where
  "optee_msg_h_copy6 = optee_msg_h_copy1"

definition optee_msg_h_copy7 :: "pp_line list" where
  "optee_msg_h_copy7 = optee_msg_h_copy1"

definition optee_msg_h_copy8 :: "pp_line list" where
  "optee_msg_h_copy8 = optee_msg_h_copy1"

definition optee_msg_h :: "pp_line list" where
  "optee_msg_h =
     optee_msg_h_copy1 @ optee_msg_h_copy2 @ optee_msg_h_copy3 @ optee_msg_h_copy4 @
     optee_msg_h_copy5 @ optee_msg_h_copy6 @ optee_msg_h_copy7 @ optee_msg_h_copy8"

lemmas optee_msg_h_parts =
  optee_msg_h_body_def optee_msg_h_formatting_def optee_msg_h_structs_def
  optee_msg_h_requests_def optee_msg_h_rpc_def

lemmas optee_msg_h_copies =
  optee_msg_h_copy2_def optee_msg_h_copy3_def optee_msg_h_copy4_def optee_msg_h_copy5_def
  optee_msg_h_copy6_def optee_msg_h_copy7_def optee_msg_h_copy8_def

interpretation msg_guard: include_guard "''_OPTEE_MSG_H''" optee_msg_h_body
  by unfold_locales (simp add: optee_msg_h_parts)

lemma optee_msg_h_eq:
  "optee_msg_h = optee_msg_h_copy1 @ concat (replicate 7 (guarded ''_OPTEE_MSG_H'' optee_msg_h_body))"
  by (simp add: optee_msg_h_def optee_msg_h_copies optee_msg_h_copy1_def numeral_eq_Suc)

text \<open>What one copy declares.\<close>

definition optee_msg_tu :: tu where
  "optee_msg_tu =
     add_text optee_msg_h_body (empty_tu\<lparr>macros := [(''_OPTEE_MSG_H'', M_empty)]\<rparr>)"

lemma optee_msg_h_flat: "flat optee_msg_h_body"
  by (simp add: flat_def optee_msg_h_parts)

lemma optee_msg_h_distinct:
  "distinct (''_OPTEE_MSG_H'' # map fst (defs_of optee_msg_h_body))"
  "distinct (map fst (structs_of optee_msg_h_body))"
  "idents_of optee_msg_h_body = []"
  by (simp_all add: optee_msg_h_parts text_defs)

text \<open>The effect of the header on a translation unit that does not use its names yet.\<close>

definition msg_added :: "tu \<Rightarrow> tu" where
  "msg_added t = add_text optee_msg_h_body (t\<lparr>macros := (''_OPTEE_MSG_H'', M_empty) # macros t\<rparr>)"

definition no_msg_names :: "tu \<Rightarrow> bool" where
  "no_msg_names t \<longleftrightarrow>
     set (''_OPTEE_MSG_H'' # map fst (defs_of optee_msg_h_body)) \<inter> fst ` set (macros t) = {} \<and>
     set (map fst (structs_of optee_msg_h_body)) \<inter> fst ` set (structs t) = {}"

lemma optee_msg_h_copy1_run:
  assumes "no_msg_names t" and "active t"
  shows "pp_run optee_msg_h_copy1 t = Inr (msg_added t)"
  unfolding optee_msg_h_copy1_def msg_added_def
proof (rule guarded_first)
  show "map_of (macros t) ''_OPTEE_MSG_H'' = None"
    using assms(1) by (simp add: no_msg_names_def map_of_eq_None_iff)
  show "fresh_in (t\<lparr>macros := (''_OPTEE_MSG_H'', M_empty) # macros t\<rparr>) optee_msg_h_body"
    using optee_msg_h_distinct assms(1) by (auto simp: fresh_in_def no_msg_names_def)
qed (use assms optee_msg_h_flat in simp_all)

lemma optee_msg_h_run:
  assumes "no_msg_names t" and "active t"
  shows "pp_run optee_msg_h t = Inr (msg_added t)"
proof -
  have "map_of (macros (msg_added t)) ''_OPTEE_MSG_H'' \<noteq> None" "active (msg_added t)"
    using assms(2) by (simp_all add: msg_added_def add_text_def active_def map_add_Some_iff)
  then have "pp_run (concat (replicate 7 (guarded ''_OPTEE_MSG_H'' optee_msg_h_body))) (msg_added t) =
      Inr (msg_added t)"
    by (rule msg_guard.copies_again)
  then show ?thesis
    using optee_msg_h_copy1_run [OF assms] by (simp add: optee_msg_h_eq pp_run_append)
qed

lemma empty_tu_simps [simp]: "no_msg_names empty_tu" "active empty_tu"
  by (simp_all add: no_msg_names_def empty_tu_def active_def)

section \<open>Messages as values\<close>

record optee_msg_param_tmem =
  tmem_buf_ptr :: u64
  tmem_size :: u64
  tmem_shm_ref :: u64

record optee_msg_param_rmem =
  rmem_offs :: u64
  rmem_size :: u64
  rmem_shm_ref :: u64

record optee_msg_param_value =
  value_a :: u64
  value_b :: u64
  value_c :: u64

text \<open>The union: which member is meant is read off \<^verbatim>\<open>attr & OPTEE_MSG_ATTR_TYPE_MASK\<close>.\<close>

datatype msg_union =
    Tmem optee_msg_param_tmem
  | Rmem optee_msg_param_rmem
  | Val optee_msg_param_value

record optee_msg_param =
  param_attr :: u64
  param_u :: msg_union

record optee_msg_arg =
  arg_cmd :: u32
  arg_func :: u32
  arg_session :: u32
  arg_cancel_id :: u32
  arg_pad :: u32
  arg_ret :: u32
  arg_ret_origin :: u32
  arg_num_params :: u32
  arg_params :: "optee_msg_param list"

datatype member = None_member | Value_member | Rmem_member | Tmem_member

definition attr_type :: "u64 \<Rightarrow> u64" where
  "attr_type a = a AND (mask 8)"

text \<open>The rule of the comment on \<^verbatim>\<open>struct optee_msg_param\<close>; other type values are not assigned.\<close>

definition attr_member :: "u64 \<Rightarrow> member option" where
  "attr_member a =
     (let t = attr_type a in
      if t = 0x0 then Some None_member
      else if t = 0x1 \<or> t = 0x2 \<or> t = 0x3 then Some Value_member
      else if t = 0x5 \<or> t = 0x6 \<or> t = 0x7 then Some Rmem_member
      else if t = 0x9 \<or> t = 0xa \<or> t = 0xb then Some Tmem_member
      else None)"

text \<open>The attribute word of a parameter: its type, the two flags and the cache attributes.\<close>

definition make_attr :: "u64 \<Rightarrow> bool \<Rightarrow> bool \<Rightarrow> u64 \<Rightarrow> u64" where
  "make_attr ty meta noncontig cache =
     ty OR (if meta then push_bit 8 1 else 0) OR (if noncontig then push_bit 9 1 else 0) OR
     push_bit 16 (cache AND mask 3)"

definition OPTEE_MSG_GET_ARG_SIZE :: "nat \<Rightarrow> nat option" where
  "OPTEE_MSG_GET_ARG_SIZE num_params =
     (case (sizeof_struct optee_msg_h ''optee_msg_arg'', sizeof_struct optee_msg_h ''optee_msg_param'') of
        (Some a, Some p) \<Rightarrow> Some (a + p * num_params)
      | _ \<Rightarrow> None)"

subsection \<open>Lookups in the header\<close>

lemma optee_msg_h_tu: "pp_run optee_msg_h empty_tu = Inr optee_msg_tu"
  using optee_msg_h_run [OF empty_tu_simps] by (simp add: optee_msg_tu_def msg_added_def empty_tu_def)

lemma optee_msg_structs: "structs optee_msg_tu = rev (structs_of optee_msg_h_body)"
  by (simp add: optee_msg_tu_def add_text_def empty_tu_def)

lemma optee_msg_macro_value:
  assumes "(m, b) \<in> set (defs_of optee_msg_h_body)"
  shows "macro_value optee_msg_h m = body_value b"
proof -
  have "distinct (map fst (macros optee_msg_tu))"
    using optee_msg_h_distinct(1)
    by (simp add: optee_msg_tu_def add_text_def empty_tu_def rev_map [symmetric])
  moreover have "(m, b) \<in> set (macros optee_msg_tu)"
    using assms by (simp add: optee_msg_tu_def add_text_def)
  ultimately have "map_of (macros optee_msg_tu) m = Some b" by simp
  then show ?thesis by (simp add: macro_value_def optee_msg_h_tu)
qed

lemma optee_msg_h_structs_only:
  "structs_of optee_msg_h_body = structs_of optee_msg_h_structs"
  unfolding optee_msg_h_body_def text_append
  by (simp add: optee_msg_h_formatting_def optee_msg_h_requests_def optee_msg_h_rpc_def text_defs)

lemma optee_msg_layouts:
  "layouts (structs optee_msg_tu) =
     [(''optee_msg_arg'', 32, 8), (''optee_msg_param'', 32, 8), (''optee_msg_param_value'', 24, 8),
      (''optee_msg_param_rmem'', 24, 8), (''optee_msg_param_tmem'', 24, 8)]"
  unfolding optee_msg_structs optee_msg_h_structs_only by code_simp

lemma bit_flags: "bit (256 :: int) n \<longleftrightarrow> n = 8" "bit (512 :: int) n \<longleftrightarrow> n = 9"
proof -
  have "(256 :: int) = 2 ^ 8" "(512 :: int) = 2 ^ 9" by simp_all
  then show "bit (256 :: int) n \<longleftrightarrow> n = 8" "bit (512 :: int) n \<longleftrightarrow> n = 9"
    by (simp_all only: bit_exp_iff) auto
qed

lemma bit_make_attr:
  "bit (make_attr ty meta noncontig cache) n \<longleftrightarrow>
     n < 64 \<and> (bit ty n \<or> meta \<and> n = 8 \<or> noncontig \<and> n = 9 \<or> 16 \<le> n \<and> n < 19 \<and> bit cache (n - 16))"
  by (auto simp: make_attr_def bit_simps bit_flags dest: bit_imp_le_length)

lemma attr_type_make_attr: "attr_type (make_attr ty meta noncontig cache) = attr_type ty"
  by (rule bit_word_eqI) (auto simp: attr_type_def bit_make_attr bit_simps)

section \<open>Properties\<close>

text \<open>
  The eight copies of the message header in one file act as one. Read from the start of
  a translation unit, the file gives no redefinition error and declares exactly what its
  first 447 lines declare: the guard hides the seven repetitions.
\<close>

theorem optee_msg_h_reads_once:
  "pp_run optee_msg_h empty_tu = pp_run optee_msg_h_copy1 empty_tu \<and>
   pp_run optee_msg_h empty_tu = Inr optee_msg_tu \<and>
   pp_run (optee_msg_h_body @ optee_msg_h_body) empty_tu = Inl (Redefined ''OPTEE_MSG_ATTR_TYPE_NONE'')"
proof (intro conjI)
  show "pp_run optee_msg_h empty_tu = pp_run optee_msg_h_copy1 empty_tu"
    by (simp add: optee_msg_h_run optee_msg_h_copy1_run)
  show "pp_run optee_msg_h empty_tu = Inr optee_msg_tu"
    by (rule optee_msg_h_tu)
  have "fresh_in empty_tu optee_msg_h_body"
    using optee_msg_h_distinct by (simp add: fresh_in_def empty_tu_def)
  then have "pp_run optee_msg_h_body empty_tu = Inr (add_text optee_msg_h_body empty_tu)"
    using optee_msg_h_flat by (intro pp_run_flat) (simp_all add: active_def empty_tu_def)
  moreover have "map_of (rev (defs_of optee_msg_h_body)) ''OPTEE_MSG_ATTR_TYPE_NONE'' \<noteq> None"
    by (simp add: optee_msg_h_formatting_def optee_msg_h_body_def text_defs map_add_Some_iff)
  ultimately show "pp_run (optee_msg_h_body @ optee_msg_h_body) empty_tu =
      Inl (Redefined ''OPTEE_MSG_ATTR_TYPE_NONE'')"
    by (simp add: pp_run_append)
       (simp add: optee_msg_h_formatting_def optee_msg_h_body_def add_text_def active_def empty_tu_def)
qed

text \<open>
  The message structures have no padding and their sizes are what the protocol needs:
  every union member is 24 bytes, a parameter 32, the call header 32, so the size macro is
  \<^verbatim>\<open>32 + 32 * n\<close> and at most 31 parameters fit the 1024 bytes of \<^verbatim>\<open>OPTEE_MAX_ARG_SIZE\<close>.
\<close>

theorem optee_msg_arg_size:
  "OPTEE_MSG_GET_ARG_SIZE n = Some (32 + 32 * n) \<and>
   (\<exists>sz. OPTEE_MSG_GET_ARG_SIZE n = Some sz \<and> (sz \<le> 1024 \<longleftrightarrow> n \<le> 31))"
  by (simp add: OPTEE_MSG_GET_ARG_SIZE_def sizeof_struct_def optee_msg_h_tu optee_msg_layouts)

text \<open>
  The attribute word keeps the parameter's kind apart from its flags: whatever the meta
  and non-contiguous flags and the cache attributes, the member of the union that is read is
  the one of the type value, and the flags can be read back.
\<close>

theorem attr_word_roundtrip:
  assumes "ty AND mask 8 = ty"
  shows "attr_member (make_attr ty meta noncontig cache) = attr_member ty \<and>
    attr_type (make_attr ty meta noncontig cache) = ty \<and>
    bit (make_attr ty meta noncontig cache) 8 = meta \<and>
    bit (make_attr ty meta noncontig cache) 9 = noncontig \<and>
    drop_bit 16 (make_attr ty meta noncontig cache) AND mask 3 = cache AND mask 3"
proof -
  have high: "\<not> bit ty n" if "8 \<le> n" for n
    using assms that by (metis bit_and_iff bit_mask_iff not_less)
  have ty: "attr_type ty = ty" using assms by (simp add: attr_type_def)
  have "drop_bit 16 (make_attr ty meta noncontig cache) AND mask 3 = cache AND mask 3"
    by (rule bit_word_eqI) (auto simp: bit_make_attr bit_simps high)
  moreover have "attr_member (make_attr ty meta noncontig cache) = attr_member ty"
    by (simp add: attr_member_def attr_type_make_attr)
  ultimately show ?thesis
    using ty by (auto simp: attr_type_make_attr bit_make_attr high)
qed

theorem attr_word_roundtrip_witness:
  "attr_member (make_attr 0xa True False 1) = Some Tmem_member"
proof -
  have "(0xa :: u64) AND mask 8 = 0xa" by (simp add: mask_eq_exp_minus_1)
  then have "attr_member (make_attr 0xa True False 1) = attr_member 0xa"
    using attr_word_roundtrip by blast
  then show ?thesis by (simp add: attr_member_def attr_type_def mask_eq_exp_minus_1)
qed

end
