(* ===== verification/Optee_Private.thy ===== *)
theory Optee_Private
  imports Optee_Msg
begin

text \<open>
  \<^verbatim>\<open>src/qemu/linux/optee_private.h\<close>, the OP-TEE driver header that the audit patch includes
  for the \<^verbatim>\<open>TEEC_*\<close> result codes. Like \<^verbatim>\<open>optee_msg.h\<close>, the committed file is one header
  repeated eight times (the copies differ in one blank line), and every copy includes the
  eight-fold \<^verbatim>\<open>optee_msg.h\<close>. The theory transcribes it, shows what a compiler sees of it, and
  models the two inline functions.
\<close>

section \<open>The text of the header\<close>

definition optee_private_h_head :: "pp_line list" where
  "optee_private_h_head =
     [Include ''linux/arm-smccc.h'',
      Include ''linux/semaphore.h'',
      Include ''linux/tee_drv.h'',
      Include ''linux/types.h'',
      Include ''optee_msg.h'',
      Define ''OPTEE_MAX_ARG_SIZE'' (M_num 1024),
      Define ''TEEC_SUCCESS'' (M_num 0x00000000),
      Define ''TEEC_ERROR_CANCEL'' (M_num 0xffff0002),
      Define ''TEEC_ERROR_BAD_PARAMETERS'' (M_num 0xffff0006),
      Define ''TEEC_ERROR_NOT_SUPPORTED'' (M_num 0xffff000a),
      Define ''TEEC_ERROR_COMMUNICATION'' (M_num 0xffff000e),
      Define ''TEEC_ERROR_OUT_OF_MEMORY'' (M_num 0xffff000c),
      Define ''TEEC_ERROR_SHORT_BUFFER'' (M_num 0xffff0010),
      Define ''TEEC_ERROR_TARGET_DEAD'' (M_num 0xffff3024),
      Define ''TEEC_ORIGIN_COMMS'' (M_num 0x00000002),
      Typedef ''optee_invoke_fn''
        [''void'', ''unsigned long'', ''unsigned long'', ''unsigned long'', ''unsigned long'',
         ''unsigned long'', ''unsigned long'', ''unsigned long'', ''unsigned long'', ''struct
         arm_smccc_res *''],
      Struct ''optee_call_queue''
       [(T_struct ''mutex'', ''mutex''),
        (T_struct ''list_head'', ''waiters'')],
      Struct ''optee_wait_queue''
       [(T_struct ''mutex'', ''mu''),
        (T_struct ''list_head'', ''db'')]]"

definition optee_private_h_structs :: "pp_line list" where
  "optee_private_h_structs =
     [Struct ''optee_supp''
       [(T_struct ''mutex'', ''mutex''),
        (T_ptr ''tee_context'', ''ctx''),
        (T_int, ''req_id''),
        (T_struct ''list_head'', ''reqs''),
        (T_struct ''idr'', ''idr''),
        (T_struct ''completion'', ''reqs_c'')],
      Struct ''optee''
       [(T_ptr ''tee_device'', ''supp_teedev''),
        (T_ptr ''tee_device'', ''teedev''),
        (T_ptr ''optee_invoke_fn'', ''invoke_fn''),
        (T_struct ''optee_call_queue'', ''call_queue''),
        (T_struct ''optee_wait_queue'', ''wait_queue''),
        (T_struct ''optee_supp'', ''supp''),
        (T_ptr ''tee_shm_pool'', ''pool''),
        (T_ptr ''void'', ''memremaped_shm''),
        (T_u32, ''sec_caps''),
        (T_bool, ''scan_bus_done''),
        (T_ptr ''workqueue_struct'', ''scan_bus_wq''),
        (T_struct ''work_struct'', ''scan_bus_work'')],
      Struct ''optee_call_waiter''
       [(T_struct ''list_head'', ''list_node''),
        (T_struct ''completion'', ''c'')],
      Struct ''optee_call_ctx''
       [(T_ptr ''void'', ''pages_list''),
        (T_size_t, ''num_entries''),
        (T_ptr ''tee_context'', ''ctx''),
        (T_ptr ''tee_shm'', ''msg_shm''),
        (T_ptr ''optee_msg_arg'', ''msg_arg''),
        (T_phys_addr_t, ''msg_parg''),
        (T_bool, ''rpc_must_release''),
        (T_ptr ''tee_shm'', ''rpc_shm''),
        (T_ptr ''optee_msg_arg'', ''rpc_arg''),
        (T_u32, ''thread_id''),
        (T_struct ''optee_call_waiter'', ''waiter''),
        (T_ptr ''void'', ''ocall_pages_list''),
        (T_size_t, ''ocall_num_entries'')],
      Struct ''optee_session''
       [(T_struct ''semaphore'', ''sem''),
        (T_struct ''list_head'', ''list_node''),
        (T_u32, ''session_id''),
        (T_struct ''optee_call_ctx'', ''call_ctx'')],
      Struct ''optee_context_data''
       [(T_struct ''mutex'', ''mutex''),
        (T_struct ''list_head'', ''sess_list''),
        (T_struct ''idr'', ''tmp_sess_list'')],
      Struct ''optee_rpc_param''
       [(T_u32, ''a0''),
        (T_u32, ''a1''),
        (T_u32, ''a2''),
        (T_u32, ''a3''),
        (T_u32, ''a4''),
        (T_u32, ''a5''),
        (T_u32, ''a6''),
        (T_u32, ''a7'')]]"

definition optee_private_h_protos :: "pp_line list" where
  "optee_private_h_protos =
     [Proto ''optee_handle_rpc''
        [''void'', ''struct tee_context *'', ''struct optee_rpc_param *'', ''struct
         optee_call_ctx *''],
      Proto ''optee_rpc_is_ocall'' [''bool'', ''struct optee_rpc_param *'', ''struct optee_call_ctx *''],
      Proto ''optee_rpc_process_shm_alloc''
        [''int'', ''struct tee_shm *'', ''struct optee_msg_param *'', ''void **''],
      Proto ''optee_rpc_finalize_call'' [''void'', ''struct optee_call_ctx *''],
      Proto ''optee_wait_queue_init'' [''void'', ''struct optee_wait_queue *''],
      Proto ''optee_wait_queue_exit'' [''void'', ''struct optee_wait_queue *''],
      Proto ''optee_cq_wait_init'' [''void'', ''struct optee_call_queue *'', ''struct optee_call_waiter *''],
      Proto ''optee_cq_wait_for_completion''
        [''void'', ''struct optee_call_queue *'', ''struct optee_call_waiter *''],
      Proto ''optee_cq_complete_one'' [''void'', ''struct optee_call_queue *''],
      Proto ''optee_cq_wait_final'' [''void'', ''struct optee_call_queue *'', ''struct optee_call_waiter *''],
      Proto ''optee_supp_thrd_req''
        [''u32'', ''struct tee_context *'', ''u32'', ''size_t'', ''struct tee_param *''],
      Proto ''optee_supp_read'' [''int'', ''struct tee_context *'', ''void __user *'', ''size_t''],
      Proto ''optee_supp_write'' [''int'', ''struct tee_context *'', ''void __user *'', ''size_t''],
      Proto ''optee_supp_init'' [''void'', ''struct optee_supp *''],
      Proto ''optee_supp_uninit'' [''void'', ''struct optee_supp *''],
      Proto ''optee_supp_release'' [''void'', ''struct optee_supp *''],
      Proto ''optee_supp_recv''
        [''int'', ''struct tee_context *'', ''u32 *'', ''u32 *'', ''struct tee_param *''],
      Proto ''optee_supp_send'' [''int'', ''struct tee_context *'', ''u32'', ''u32'', ''struct tee_param *''],
      Proto ''optee_do_call_with_arg'' [''u32'', ''struct tee_context *'', ''phys_addr_t''],
      Proto ''optee_open_session''
        [''int'', ''struct tee_context *'', ''struct tee_ioctl_open_session_arg *'', ''struct
         tee_param *'', ''u32'', ''struct tee_param *''],
      Proto ''optee_close_session'' [''int'', ''struct tee_context *'', ''u32''],
      Proto ''optee_invoke_func''
        [''int'', ''struct tee_context *'', ''struct tee_ioctl_invoke_arg *'', ''struct
         tee_param *'', ''u32'', ''struct tee_param *''],
      Proto ''optee_cancel_req'' [''int'', ''struct tee_context *'', ''u32'', ''u32''],
      Proto ''optee_enable_shm_cache'' [''void'', ''struct optee *''],
      Proto ''optee_disable_shm_cache'' [''void'', ''struct optee *''],
      Proto ''optee_shm_register''
        [''int'', ''struct tee_context *'', ''struct tee_shm *'', ''struct page **'',
         ''size_t'', ''unsigned long''],
      Proto ''optee_shm_unregister'' [''int'', ''struct tee_context *'', ''struct tee_shm *''],
      Proto ''optee_shm_register_supp''
        [''int'', ''struct tee_context *'', ''struct tee_shm *'', ''struct page **'',
         ''size_t'', ''unsigned long''],
      Proto ''optee_shm_unregister_supp'' [''int'', ''struct tee_context *'', ''struct tee_shm *''],
      Proto ''optee_from_msg_param''
        [''int'', ''struct tee_param *'', ''size_t'', ''const struct optee_msg_param *''],
      Proto ''optee_to_msg_param''
        [''int'', ''struct optee_msg_param *'', ''size_t'', ''const struct tee_param *''],
      Proto ''optee_allocate_pages_list'' [''u64 *'', ''size_t''],
      Proto ''optee_free_pages_list'' [''void'', ''void *'', ''size_t''],
      Proto ''optee_fill_pages_list'' [''void'', ''u64 *'', ''struct page **'', ''int'', ''size_t''],
      Define ''PTA_CMD_GET_DEVICES'' (M_num 0x0),
      Define ''PTA_CMD_GET_DEVICES_SUPP'' (M_num 0x1),
      Proto ''optee_enumerate_devices'' [''int'', ''u32''],
      Proto ''optee_cancel_open_session_ocall'' [''void'', ''struct optee_session *''],
      Proto ''optee_cancel_invoke_function_ocall'' [''void'', ''struct optee_call_ctx *'']]"

definition optee_private_h_inline :: "pp_line list" where
  "optee_private_h_inline =
     [Inline ''reg_pair_to_ptr'' [''void *'', ''u32'', ''u32''],
      Inline ''reg_pair_from_64'' [''void'', ''u32 *'', ''u32 *'', ''u64'']]"


definition optee_private_h_body :: "pp_line list" where
  "optee_private_h_body =
     optee_private_h_head @ optee_private_h_structs @ optee_private_h_protos @ optee_private_h_inline"

definition optee_private_h_copy1 :: "pp_line list" where
  "optee_private_h_copy1 = guarded ''OPTEE_PRIVATE_H'' optee_private_h_body"

definition optee_private_h_copy2 :: "pp_line list" where
  "optee_private_h_copy2 = optee_private_h_copy1"

definition optee_private_h_copy3 :: "pp_line list" where
  "optee_private_h_copy3 = optee_private_h_copy1"

definition optee_private_h_copy4 :: "pp_line list" where
  "optee_private_h_copy4 = optee_private_h_copy1"

definition optee_private_h_copy5 :: "pp_line list" where
  "optee_private_h_copy5 = optee_private_h_copy1"

definition optee_private_h_copy6 :: "pp_line list" where
  "optee_private_h_copy6 = optee_private_h_copy1"

definition optee_private_h_copy7 :: "pp_line list" where
  "optee_private_h_copy7 = optee_private_h_copy1"

definition optee_private_h_copy8 :: "pp_line list" where
  "optee_private_h_copy8 = optee_private_h_copy1"

definition optee_private_h :: "pp_line list" where
  "optee_private_h =
     optee_private_h_copy1 @ optee_private_h_copy2 @ optee_private_h_copy3 @ optee_private_h_copy4 @
     optee_private_h_copy5 @ optee_private_h_copy6 @ optee_private_h_copy7 @ optee_private_h_copy8"

lemmas optee_private_h_parts =
  optee_private_h_body_def optee_private_h_head_def optee_private_h_structs_def
  optee_private_h_protos_def optee_private_h_inline_def

lemmas optee_private_h_copies =
  optee_private_h_copy2_def optee_private_h_copy3_def optee_private_h_copy4_def
  optee_private_h_copy5_def optee_private_h_copy6_def optee_private_h_copy7_def
  optee_private_h_copy8_def

text \<open>The translation unit of a source file that includes the header.\<close>

definition with_msg :: "pp_line list \<Rightarrow> pp_line list" where
  "with_msg ls = expand [(''optee_msg.h'', optee_msg_h)] ls"

section \<open>Inline functions\<close>

definition reg_pair_to_ptr :: "u32 \<Rightarrow> u32 \<Rightarrow> u64" where
  "reg_pair_to_ptr reg0 reg1 = push_bit 32 (ucast reg0) OR ucast reg1"

definition reg_pair_from_64 :: "u64 \<Rightarrow> u32 \<times> u32" where
  "reg_pair_from_64 val = (ucast (drop_bit 32 val), ucast val)"

section \<open>Result codes\<close>

definition TEEC_SUCCESS :: u32 where "TEEC_SUCCESS = 0x00000000"
definition TEEC_ERROR_CANCEL :: u32 where "TEEC_ERROR_CANCEL = 0xFFFF0002"
definition TEEC_ERROR_BAD_PARAMETERS :: u32 where "TEEC_ERROR_BAD_PARAMETERS = 0xFFFF0006"
definition TEEC_ERROR_NOT_SUPPORTED :: u32 where "TEEC_ERROR_NOT_SUPPORTED = 0xFFFF000A"
definition TEEC_ERROR_COMMUNICATION :: u32 where "TEEC_ERROR_COMMUNICATION = 0xFFFF000E"
definition TEEC_ERROR_OUT_OF_MEMORY :: u32 where "TEEC_ERROR_OUT_OF_MEMORY = 0xFFFF000C"
definition TEEC_ERROR_SHORT_BUFFER :: u32 where "TEEC_ERROR_SHORT_BUFFER = 0xFFFF0010"
definition TEEC_ERROR_TARGET_DEAD :: u32 where "TEEC_ERROR_TARGET_DEAD = 0xFFFF3024"

lemmas TEEC_codes =
  TEEC_SUCCESS_def TEEC_ERROR_CANCEL_def TEEC_ERROR_BAD_PARAMETERS_def TEEC_ERROR_NOT_SUPPORTED_def
  TEEC_ERROR_COMMUNICATION_def TEEC_ERROR_OUT_OF_MEMORY_def TEEC_ERROR_SHORT_BUFFER_def
  TEEC_ERROR_TARGET_DEAD_def

section \<open>What a compiler sees of the file\<close>

text \<open>The includes of the head before and after \<^verbatim>\<open>optee_msg.h\<close>, and the body that follows.\<close>

definition private_own :: "pp_line list" where
  "private_own = drop 5 optee_private_h_head @ optee_private_h_structs @ optee_private_h_protos @
     optee_private_h_inline"

definition system_includes :: "pp_line list" where
  "system_includes = take 4 optee_private_h_head"

lemma expand_no_include:
  "list_all (\<lambda>l. case l of Include f \<Rightarrow> f \<notin> fst ` set fs | _ \<Rightarrow> True) ls \<Longrightarrow> expand fs ls = ls"
  by (induction ls) (auto simp: expand_def map_of_eq_None_iff [THEN iffD2] split: pp_line.splits)

lemma with_msg_append: "with_msg (xs @ ys) = with_msg xs @ with_msg ys"
  by (simp add: with_msg_def expand_append)

lemma with_msg_body: "with_msg optee_private_h_body = system_includes @ optee_msg_h @ private_own"
proof -
  have split: "optee_private_h_body = system_includes @ [Include ''optee_msg.h''] @ private_own"
    by (simp add: optee_private_h_parts system_includes_def private_own_def)
  have "with_msg system_includes = system_includes" "with_msg private_own = private_own"
    unfolding with_msg_def
    by (rule expand_no_include, simp add: optee_private_h_parts system_includes_def private_own_def)+
  moreover have "with_msg [Include ''optee_msg.h''] = optee_msg_h"
    by (simp add: with_msg_def expand_def)
  ultimately show ?thesis by (simp only: split with_msg_append)
qed

lemma optee_msg_h_balanced: "balanced 0 optee_msg_h"
proof -
  have "balanced 0 (concat (replicate n (guarded ''_OPTEE_MSG_H'' optee_msg_h_body)))" for n
    by (induction n) (use balanced_append [of 0 _ 0] msg_guard.guarded_balanced in auto)
  from balanced_append [OF msg_guard.guarded_balanced this [of 7]] show ?thesis
    by (simp add: optee_msg_h_eq optee_msg_h_copy1_def)
qed

lemma private_own_flat: "flat private_own" "flat system_includes"
  by (simp_all add: flat_def private_own_def system_includes_def optee_private_h_parts)

lemma balanced_append0: "balanced 0 xs \<Longrightarrow> balanced 0 ys \<Longrightarrow> balanced 0 (xs @ ys)"
  using balanced_append [of 0 xs 0 ys] by simp

interpretation private_guard: include_guard "''OPTEE_PRIVATE_H''" "with_msg optee_private_h_body"
  unfolding with_msg_body
  by unfold_locales
     (intro balanced_append0 optee_msg_h_balanced flat_balanced private_own_flat)

lemma with_msg_guarded:
  "with_msg (guarded g body) = guarded g (with_msg body)"
  by (simp add: with_msg_def guarded_def expand_def)

lemma with_msg_file:
  "with_msg optee_private_h =
     guarded ''OPTEE_PRIVATE_H'' (with_msg optee_private_h_body) @
     concat (replicate 7 (guarded ''OPTEE_PRIVATE_H'' (with_msg optee_private_h_body)))"
proof -
  have whole: "optee_private_h = optee_private_h_copy1 @ concat (replicate 7 optee_private_h_copy1)"
    by (simp add: optee_private_h_def optee_private_h_copies numeral_eq_Suc)
  have "with_msg (concat (replicate n ls)) = concat (replicate n (with_msg ls))" for n ls
    by (induction n) (simp_all add: with_msg_append, simp add: with_msg_def expand_def)
  then show ?thesis
    unfolding whole by (simp add: with_msg_append optee_private_h_copy1_def with_msg_guarded)
qed

text \<open>What one copy declares, with the message header it includes.\<close>

definition private_tu :: tu where
  "private_tu = add_text private_own (msg_added (empty_tu\<lparr>macros := [(''OPTEE_PRIVATE_H'', M_empty)]\<rparr>))"

lemmas private_text = private_own_def optee_private_h_parts optee_msg_h_parts text_defs

lemma private_defs_distinct: "distinct (map fst (defs_of private_own))"
  by (simp add: private_text)

lemma private_structs_distinct: "distinct (map fst (structs_of private_own))"
  by (simp add: private_text)

lemma private_idents_distinct: "distinct (map fst (idents_of private_own))"
  by (simp add: private_text)

lemma private_msg_defs_disjoint: "set (map fst (defs_of private_own)) \<inter> set (map fst (defs_of optee_msg_h_body)) = {}"
  by (simp add: private_text)

lemma private_msg_structs_disjoint: "set (map fst (structs_of private_own)) \<inter> set (map fst (structs_of optee_msg_h_body)) = {}"
  by (simp add: private_text)

lemma private_guard_not_in_msg: "''OPTEE_PRIVATE_H'' \<notin> set (map fst (defs_of optee_msg_h_body))"
  by (simp add: private_text)

lemma private_guards_not_own:
  "''OPTEE_PRIVATE_H'' \<notin> set (map fst (defs_of private_own))"
  "''_OPTEE_MSG_H'' \<notin> set (map fst (defs_of private_own))"
  by (simp_all add: private_text)

lemmas private_names = private_defs_distinct private_structs_distinct private_idents_distinct
  private_guards_not_own private_msg_defs_disjoint private_msg_structs_disjoint private_guard_not_in_msg

lemma private_body_run:
  assumes "conds t = [True]" and "macros t = [(''OPTEE_PRIVATE_H'', M_empty)]"
    and "structs t = []" and "idents t = []"
  shows "pp_run (with_msg optee_private_h_body) t = Inr (add_text private_own (msg_added t))"
proof -
  have act: "active t" "active (msg_added t)"
    using assms(1) by (simp_all add: active_def msg_added_def add_text_def)
  have "no_msg_names t"
    using private_names(8) assms(2,3) by (auto simp: no_msg_names_def)
  then have "pp_run optee_msg_h t = Inr (msg_added t)"
    using act by (simp add: optee_msg_h_run)
  moreover have "pp_run system_includes t = Inr t"
    by (simp add: system_includes_def optee_private_h_head_def)
  moreover have "fresh_in (msg_added t) private_own"
    using private_names optee_msg_h_distinct(3) assms
    by (auto simp: fresh_in_def msg_added_def add_text_def)
  then have "pp_run private_own (msg_added t) = Inr (add_text private_own (msg_added t))"
    using private_own_flat(1) act by (simp add: pp_run_flat)
  ultimately show ?thesis by (simp add: with_msg_body pp_run_append)
qed

section \<open>Properties\<close>


text \<open>
  A 64-bit value survives the trip through the register pair of an OP-TEE call, in both
  directions: the helpers are inverse bijections between pairs of 32-bit registers and
  64-bit words.
\<close>

theorem reg_pair_roundtrip:
  "(case reg_pair_from_64 v of (r0, r1) \<Rightarrow> reg_pair_to_ptr r0 r1 = v) \<and>
   reg_pair_from_64 (reg_pair_to_ptr r0 r1) = (r0, r1)"
proof -
  have "push_bit 32 (ucast (ucast (drop_bit 32 v) :: u32)) OR ucast (ucast v :: u32) = v"
    by (rule bit_word_eqI) (auto simp: bit_simps)
  moreover have "ucast (drop_bit 32 (push_bit 32 (ucast r0) OR ucast r1 :: u64)) = r0"
    by (rule bit_word_eqI) (auto simp: bit_simps dest: bit_imp_le_length)
  moreover have "ucast (push_bit 32 (ucast r0) OR ucast r1 :: u64) = r1"
    by (rule bit_word_eqI) (auto simp: bit_simps dest: bit_imp_le_length)
  ultimately show ?thesis by (simp add: reg_pair_from_64_def reg_pair_to_ptr_def)
qed

end
