(* ===== verification/Audit_Sender.thy ===== *)
theory Audit_Sender
  imports Audit_Queue Optee_Private "HOL-Library.Sublist"
begin

text \<open>
  The kernel side of the log path, the rest of \<^verbatim>\<open>src/qemu/linux/audit_qemu.patch\<close>: records are
  put into the ring buffer by \<^verbatim>\<open>audit_log_end\<close>, and the audit thread hands them in batches to
  TA-Collect through the TEE driver (\<^verbatim>\<open>ta_create_session\<close>, \<^verbatim>\<open>ta_invoke\<close>,
  \<^verbatim>\<open>send_eventlog_ta_collect\<close>). The driver is not part of the repository: each of its calls
  answers as a function of the calls made so far, fields of \<^verbatim>\<open>kenv\<close>, and is recorded with its
  answer. The contents of the uninitialised stack arrays are fields of the same record.
\<close>

section \<open>State and environment\<close>

datatype kptr = Null | Err_ptr | Ptr nat

datatype kcall =
    K_open_context "nat option"
  | K_close_context nat
  | K_open_session nat int u32 u32
  | K_close_session nat u32
  | K_shm_alloc nat u64 "nat option"
  | K_shm_free nat
  | K_invoke nat u32 u32 "char list" int u32

record kenv =
  TEE_IMPL_ID_OPTEE :: u32
  tee_client_open_context :: "kcall list \<Rightarrow> (u32 \<Rightarrow> int) \<Rightarrow> nat option"
  tee_client_open_session :: "kcall list \<Rightarrow> nat \<Rightarrow> u8 list \<Rightarrow> int \<times> u32 \<times> u32"
  tee_shm_alloc :: "kcall list \<Rightarrow> nat \<Rightarrow> u64 \<Rightarrow> nat option"
  tee_client_invoke_func :: "kcall list \<Rightarrow> nat \<Rightarrow> u32 \<Rightarrow> u32 \<Rightarrow> char list \<Rightarrow> int \<times> u32"
  audit_log_format_node :: "char list \<Rightarrow> char list"
  stack_event_log :: "kcall list \<Rightarrow> char list"
  stack_summary_log :: "kcall list \<Rightarrow> char list"

record kstate =
  tee_ctx :: kptr
  sess_session :: u32
  queue :: ring
  kcalls :: "kcall list"

definition kinit :: kstate where
  "kinit = \<lparr>tee_ctx = Null, sess_session = 0, queue = ring_init, kcalls = []\<rparr>"

definition kcall_add :: "kcall \<Rightarrow> kstate \<Rightarrow> kstate" where
  "kcall_add c s = s\<lparr>kcalls := kcalls s @ [c]\<rparr>"

lemma kcall_add_simps [simp]:
  "tee_ctx (kcall_add c s) = tee_ctx s" "sess_session (kcall_add c s) = sess_session s"
  "queue (kcall_add c s) = queue s" "kcalls (kcall_add c s) = kcalls s @ [c]"
  by (simp_all add: kcall_add_def)

section \<open>Operations\<close>

definition optee_ctx_match :: "kenv \<Rightarrow> u32 \<Rightarrow> int" where
  "optee_ctx_match E impl_id = (if impl_id = TEE_IMPL_ID_OPTEE E then 1 else 0)"

text \<open>The driver would dereference a context that is NULL or an error pointer.\<close>

definition ta_invoke ::
    "kenv \<Rightarrow> kptr \<Rightarrow> u32 \<Rightarrow> u32 \<Rightarrow> char list \<Rightarrow> u64 \<Rightarrow> kstate \<Rightarrow> (int \<times> kstate) c_result" where
  "ta_invoke E ctx session func send_data send_data_len s =
     (case ctx of
        Ptr c \<Rightarrow>
          (case tee_shm_alloc E (kcalls s) c send_data_len of
             None \<Rightarrow> Inr (-1, kcall_add (K_shm_alloc c send_data_len None) s)
           | Some device_shm \<Rightarrow>
               (let s1 = kcall_add (K_shm_alloc c send_data_len (Some device_shm)) s in
                case memcpy (replicate (unat send_data_len) NUL) send_data (unat send_data_len) of
                  Inl e \<Rightarrow> Inl e
                | Inr data \<Rightarrow>
                    (let (ret, inv_ret) = tee_client_invoke_func E (kcalls s1) c session func data;
                         s2 = kcall_add (K_invoke c session func data ret inv_ret) s1 in
                     if ret < 0 \<or> inv_ret \<noteq> TEEC_SUCCESS \<and> inv_ret \<noteq> TEEC_ERROR_SHORT_BUFFER
                     then Inr (-22, s2)
                     else Inr (0, kcall_add (K_shm_free device_shm) s2))))
      | _ \<Rightarrow> Inl Null_dereference)"

definition introspection_ta_uuid :: "u8 list" where
  "introspection_ta_uuid = [0x62, 0x7a, 0x75, 0x7a, 0x99, 0x24, 0x11, 0xec, 0xb9, 0x09, 0x02,
     0x42, 0xac, 0x12, 0x00, 0x02]"

definition ta_create_session :: "kenv \<Rightarrow> kstate \<Rightarrow> int \<times> kstate" where
  "ta_create_session E s =
     (let s0 = s\<lparr>sess_session := 0\<rparr> in
      case tee_client_open_context E (kcalls s0) (optee_ctx_match E) of
        None \<Rightarrow> (-1, kcall_add (K_open_context None) (s0\<lparr>tee_ctx := Err_ptr\<rparr>))
      | Some c \<Rightarrow>
          (let s1 = kcall_add (K_open_context (Some c)) (s0\<lparr>tee_ctx := Ptr c\<rparr>);
               (rc, ret, session) = tee_client_open_session E (kcalls s1) c introspection_ta_uuid;
               s2 = kcall_add (K_open_session c rc ret session) (s1\<lparr>sess_session := session\<rparr>) in
           if rc < 0 \<or> ret \<noteq> TEEC_SUCCESS then (-1, kcall_add (K_close_context c) s2)
           else (0, s2)))"

text \<open>
  The loop that joins records into one message. \<^verbatim>\<open>log_msg_len\<close> is None until it is first
  assigned. The loop ends because each further round has taken a record from the ring.
\<close>

function gather ::
    "char list \<Rightarrow> char list \<Rightarrow> nat option \<Rightarrow> ring \<Rightarrow> (char list \<times> nat option \<times> ring) c_result" where
  "gather event_log summary_log log_msg_len q =
     (case dequeue event_log q of
        Inl e \<Rightarrow> Inl e
      | Inr (rc, event_log1, q1) \<Rightarrow>
          if rc \<noteq> 1 \<and> 0 < queue_num q1 then
            (case strcat summary_log event_log1 of
               Inl e \<Rightarrow> Inl e
             | Inr summary1 \<Rightarrow>
                 (case strcat summary1 (lit [LF]) of
                    Inl e \<Rightarrow> Inl e
                  | Inr summary2 \<Rightarrow>
                      (case strlen summary2 of
                         Inl e \<Rightarrow> Inl e
                       | Inr n \<Rightarrow>
                           if 10000 < n then Inr (summary2, Some n, q1)
                           else gather event_log1 summary2 (Some n) q1)))
          else Inr (summary_log, log_msg_len, q1))"
  by pat_completeness auto
termination
  by (relation "measure (\<lambda>(ev, sm, l, q). nat (queue_num q))")
     (auto simp: dequeue_def split: if_splits sum.splits)

declare gather.simps [simp del]

definition send_eventlog_ta_collect :: "kenv \<Rightarrow> kstate \<Rightarrow> (int \<times> kstate) c_result" where
  "send_eventlog_ta_collect E s =
     (let func = 1;
          (rc, s1) = (if tee_ctx s = Null then ta_create_session E s else (0, s)) in
      if rc < 0 then Inr (-1, s1\<lparr>tee_ctx := Null\<rparr>)
      else
        let summary_log = stack_summary_log E (kcalls s1) in
        case strlen summary_log of
          Inl e \<Rightarrow> Inl e
        | Inr n \<Rightarrow>
            (case memset summary_log NUL n of
               Inl e \<Rightarrow> Inl e
             | Inr summary0 \<Rightarrow>
                 (case gather (stack_event_log E (kcalls s1)) summary0 None (queue s1) of
                    Inl e \<Rightarrow> Inl e
                  | Inr (summary1, log_msg_len, q1) \<Rightarrow>
                      (case log_msg_len of
                         None \<Rightarrow> Inl Uninitialised_read
                       | Some len \<Rightarrow>
                           (case ta_invoke E (tee_ctx s1) (sess_session s1) func summary1 (of_nat len)
                                   (s1\<lparr>queue := q1\<rparr>) of
                              Inl e \<Rightarrow> Inl e
                            | Inr (rc2, s2) \<Rightarrow>
                                if rc2 < 0 then
                                  (case tee_ctx s2 of
                                     Ptr c \<Rightarrow> Inr (-1, (kcall_add (K_close_session c (sess_session s2)) s2)\<lparr>tee_ctx := Null\<rparr>)
                                   | _ \<Rightarrow> Inl Null_dereference)
                                else Inr (0, s2))))))"

text \<open>The part of the audit thread's loop that the patch adds.\<close>

definition kauditd_call_ta :: "kenv \<Rightarrow> kstate \<Rightarrow> kstate c_result" where
  "kauditd_call_ta E s =
     (if 500 \<le> queue_num (queue s) then
        (case send_eventlog_ta_collect E s of Inl e \<Rightarrow> Inl e | Inr (_, s') \<Rightarrow> Inr s')
      else Inr s)"

text \<open>
  The part of \<^verbatim>\<open>audit_log_end\<close> that the patch adds: \<^verbatim>\<open>ab\<close> is the message text in the socket
  buffer, the node name is appended to it by the kernel's \<^verbatim>\<open>audit_log_format\<close>, and the result
  of \<^verbatim>\<open>enqueue\<close> is ignored. \<^verbatim>\<open>rate_ok\<close> is the answer of \<^verbatim>\<open>audit_rate_check\<close>.
\<close>

definition audit_log_end :: "kenv \<Rightarrow> char list option \<Rightarrow> bool \<Rightarrow> kstate \<Rightarrow> kstate c_result" where
  "audit_log_end E ab rate_ok s =
     (case ab of
        None \<Rightarrow> Inr s
      | Some msg \<Rightarrow>
          if rate_ok then
            (case enqueue (audit_log_format_node E msg) (queue s) of
               Inl e \<Rightarrow> Inl e
             | Inr (_, q) \<Rightarrow> Inr (s\<lparr>queue := q\<rparr>))
          else Inr s)"

section \<open>What a batch is\<close>

text \<open>
  The specification of the loop on lists: the records that still wait, the text so far and
  the length last computed give the text, the length and the records left. The record taken
  last, when the ring runs empty, is in neither.
\<close>

fun batch :: "string list \<Rightarrow> string \<Rightarrow> nat option \<Rightarrow> string \<times> nat option \<times> string list" where
  "batch [] acc l = (acc, l, [])"
| "batch [x] acc l = (acc, l, [])"
| "batch (x # y # ys) acc l =
     (let acc1 = acc @ x @ [LF] in
      if 10000 < length acc1 then (acc1, Some (length acc1), y # ys)
      else batch (y # ys) acc1 (Some (length acc1)))"

definition log_lines :: "string list \<Rightarrow> string" where
  "log_lines xs = concat (map (\<lambda>x. x @ [LF]) xs)"

lemma log_lines_simps [simp]:
  "log_lines [] = []" "log_lines (x # xs) = x @ LF # log_lines xs" "log_lines (xs @ ys) = log_lines xs @ log_lines ys"
  by (simp_all add: log_lines_def)

lemma cstr_lit_LF [simp]: "cstr (lit [LF]) = [LF]"
  by (simp add: lit_def cstr_def)

lemma items_pos: "items q = x # xs \<Longrightarrow> 0 < queue_num q"
  using length_items [of q] by simp

lemma items_short: "ring_inv q \<Longrightarrow> x \<in> set (items q) \<Longrightarrow> length x < SLOT_SIZE \<and> NUL \<notin> set x"
proof -
  assume inv: "ring_inv q" and "x \<in> set (items q)"
  then obtain k where k: "k < nat (queue_num q)" "x = cstr (test_queue q (slot_of q (int k)))"
    by (auto simp: items_def)
  then have "NUL \<in> set (test_queue q (slot_of q (int k)))" "length (test_queue q (slot_of q (int k))) = SLOT_SIZE"
    using inv by (auto simp: ring_inv_def)
  then show ?thesis using k(2) cstr_length_less [of "test_queue q (slot_of q (int k))"] by simp
qed

text \<open>The destination of the loop: a terminated text in the 12000-byte array.\<close>

definition holds_text :: "char list \<Rightarrow> string \<Rightarrow> bool" where
  "holds_text b acc \<longleftrightarrow> length b = 12000 \<and> NUL \<in> set b \<and> cstr b = acc"

lemma strcat_text:
  assumes "holds_text b acc" and "NUL \<in> set src" and "length acc + length (cstr src) < 12000"
  obtains d where "strcat b src = Inr d" and "holds_text d (acc @ cstr src)"
proof -
  obtain d where d: "strcat b src = Inr d"
    using assms by (auto simp: holds_text_def strcat_eq)
  then show thesis
    using assms(1) strcat_holds [OF d] by (intro that [of d]) (simp_all add: holds_text_def)
qed

text \<open>One round of the loop: it cannot overrun the array while at most 10000 characters are in it.\<close>

lemma append_line:
  assumes "holds_text b acc" and "length acc \<le> 10000" and "NUL \<in> set src" and "length (cstr src) < SLOT_SIZE"
  obtains b1 b2 where "strcat b src = Inr b1" and "strcat b1 (lit [LF]) = Inr b2"
    and "strlen b2 = Inr (length (acc @ cstr src @ [LF]))" and "holds_text b2 (acc @ cstr src @ [LF])"
proof -
  obtain b1 where b1: "strcat b src = Inr b1" "holds_text b1 (acc @ cstr src)"
    using assms by (auto simp: SLOT_SIZE_def intro: strcat_text [of b acc src])
  obtain b2 where b2: "strcat b1 (lit [LF]) = Inr b2" "holds_text b2 ((acc @ cstr src) @ cstr (lit [LF]))"
    by (rule strcat_text [OF b1(2), of "lit [LF]"]) (use assms in \<open>simp_all add: SLOT_SIZE_def\<close>)
  show thesis
    by (rule that [OF b1(1) b2(1)]) (use b2(2) in \<open>simp_all add: holds_text_def strlen_terminated\<close>)
qed

lemma gather_round:
  assumes "ring_inv q" and "slot_buffer ev" and "holds_text b acc" and "length acc \<le> 10000"
    and "items q = x # y # ys"
  obtains ev1 b2 where "gather ev b l q = (if 10000 < length (acc @ x @ [LF])
      then Inr (b2, Some (length (acc @ x @ [LF])), dropped q)
      else gather ev1 b2 (Some (length (acc @ x @ [LF]))) (dropped q))"
    and "slot_buffer ev1" and "holds_text b2 (acc @ x @ [LF])"
    and "ring_inv (dropped q)" and "items (dropped q) = y # ys"
proof -
  have n: "0 < queue_num q" by (rule items_pos [OF assms(5)])
  obtain ev1 where d: "dequeue ev q = Inr (0, ev1, dropped q)" "cstr ev1 = cstr (test_queue q (queue_head q))"
      "slot_buffer ev1" "NUL \<in> set ev1"
    by (rule dequeue_drop [OF assms(1,2) n])
  have it: "x = cstr ev1" "items (dropped q) = y # ys"
    using items_Cons [OF assms(1) n] assms(5) d(2) by simp_all
  have n1: "0 < queue_num (dropped q)" by (rule items_pos [OF it(2)])
  have short: "length (cstr ev1) < SLOT_SIZE"
    using items_short [OF assms(1), of x] it(1) assms(5) by simp
  obtain b1 b2 where b: "strcat b ev1 = Inr b1" "strcat b1 (lit [LF]) = Inr b2"
      "strlen b2 = Inr (length (acc @ cstr ev1 @ [LF]))" "holds_text b2 (acc @ cstr ev1 @ [LF])"
    by (rule append_line [OF assms(3,4) d(4) short])
  have "gather ev b l q = (if 10000 < length (acc @ x @ [LF])
      then Inr (b2, Some (length (acc @ x @ [LF])), dropped q)
      else gather ev1 b2 (Some (length (acc @ x @ [LF]))) (dropped q))"
    by (subst gather.simps) (use d(1) n1 b it(1) in simp)
  then show thesis
    using that d(3) b(4) it ring_inv_dropped [OF assms(1) n] by blast
qed

lemma gather_batch:
  assumes "ring_inv q" and "slot_buffer ev" and "holds_text b acc" and "length acc \<le> 10000"
    and "batch (items q) acc l = (acc', l', rest)"
  shows "\<exists>b' q'. gather ev b l q = Inr (b', l', q') \<and> ring_inv q' \<and> items q' = rest \<and> holds_text b' acc'"
  using assms
proof (induction "items q" acc l arbitrary: q ev b rule: batch.induct)
  case (3 x y ys acc l)
  obtain ev1 b2 where r: "gather ev b l q = (if 10000 < length (acc @ x @ [LF])
      then Inr (b2, Some (length (acc @ x @ [LF])), dropped q)
      else gather ev1 b2 (Some (length (acc @ x @ [LF]))) (dropped q))"
      "slot_buffer ev1" "holds_text b2 (acc @ x @ [LF])" "ring_inv (dropped q)" "items (dropped q) = y # ys"
    by (rule gather_round [OF "3.prems"(1-4) "3.hyps"(2) [symmetric], of l])
  have bt: "batch (x # y # ys) acc l = (acc', l', rest)" using "3.prems"(5) "3.hyps"(2) by simp
  show ?case
  proof (cases "10000 < length (acc @ x @ [LF])")
    case True
    with bt r show ?thesis by (auto simp: Let_def)
  next
    case False
    have "\<exists>b' q'. gather ev1 b2 (Some (length (acc @ x @ [LF]))) (dropped q) = Inr (b', l', q') \<and>
        ring_inv q' \<and> items q' = rest \<and> holds_text b' acc'"
      by (rule "3.hyps"(1) [OF refl False r(5) [symmetric] r(4,2,3)])
         (use False r bt in \<open>auto simp: Let_def\<close>)
    with False r(1) show ?thesis by simp
  qed
next
  case (1 acc l)
  then have "dequeue ev q = Inr (-1, ev, q)" "\<not> 0 < queue_num q"
    using length_items [of q] by (simp_all add: dequeue_def ring_inv_def)
  then have "gather ev b l q = Inr (b, l, q)" by (subst gather.simps) simp
  with 1 show ?case by (metis batch.simps(1) prod.inject)
next
  case (2 v acc l)
  have n: "0 < queue_num q" by (rule items_pos [OF 2(1) [symmetric]])
  obtain ev1 where d: "dequeue ev q = Inr (0, ev1, dropped q)"
    by (rule dequeue_drop [OF 2(2,3) n])
  have rest: "items (dropped q) = []" using items_Cons [OF 2(2) n] 2(1) by simp
  then have "\<not> 0 < queue_num (dropped q)" using length_items [of "dropped q"] by simp
  then have "gather ev b l q = Inr (b, l, dropped q)" by (subst gather.simps) (simp add: d)
  with 2 rest ring_inv_dropped [OF 2(2) n] show ?case by (metis batch.simps(2) prod.inject)
qed

text \<open>What a batch does with the records: a prefix is sent, at most one record is dropped, the rest stays.\<close>

lemma batch_splits:
  assumes "batch xs acc l = (acc', l', rest)"
  shows "\<exists>sent lost. xs = sent @ lost @ rest \<and> acc' = acc @ log_lines sent \<and> length lost \<le> 1 \<and>
    (lost = [] \<longleftrightarrow> rest \<noteq> [] \<or> xs = []) \<and> (sent \<noteq> [] \<longrightarrow> l' = Some (length acc')) \<and> (sent = [] \<longrightarrow> l' = l) \<and>
    (2 \<le> length xs \<longrightarrow> sent \<noteq> [])"
  using assms
proof (induction xs acc l rule: batch.induct)
  case (3 x y ys acc l)
  show ?case
  proof (cases "10000 < length (acc @ x @ [LF])")
    case True
    with 3(2) show ?thesis by (intro exI [of _ "[x]"] exI [of _ "[]"]) (auto simp: Let_def)
  next
    case False
    with 3(2) have b: "batch (y # ys) (acc @ x @ [LF]) (Some (length (acc @ x @ [LF]))) = (acc', l', rest)"
      by (simp add: Let_def)
    obtain sent lost where
        "y # ys = sent @ lost @ rest" "acc' = (acc @ x @ [LF]) @ log_lines sent" "length lost \<le> 1"
        "lost = [] \<longleftrightarrow> rest \<noteq> [] \<or> y # ys = []" "sent \<noteq> [] \<longrightarrow> l' = Some (length acc')"
        "sent = [] \<longrightarrow> l' = Some (length (acc @ x @ [LF]))"
      using 3(1) [OF refl False b] by blast
    then show ?thesis by (intro exI [of _ "x # sent"] exI [of _ lost]) auto
  qed
next
  case (2 v acc l)
  then show ?case by (intro exI [of _ "[]"] exI [of _ "[v]"]) auto
qed auto

lemma batch_drains:
  assumes "length (acc @ log_lines xs) \<le> 10000"
  shows "\<exists>l'. batch (xs @ [x]) acc l = (acc @ log_lines xs, l', [])"
  using assms
proof (induction xs arbitrary: acc l)
  case (Cons a xs)
  obtain y ys where y: "xs @ [x] = y # ys" by (cases xs) auto
  have "\<exists>l'. batch (xs @ [x]) (acc @ a @ [LF]) (Some (length (acc @ a @ [LF]))) =
      ((acc @ a @ [LF]) @ log_lines xs, l', [])"
    using Cons.prems by (intro Cons.IH) simp
  with Cons.prems show ?case by (simp add: y Let_def)
qed simp

lemma batch_length_bound:
  assumes "batch xs acc l = (acc', l', rest)" and "length acc \<le> 10000" and "\<forall>x \<in> set xs. length x < 1024"
  shows "length acc' \<le> 11024"
  using assms by (induction xs acc l rule: batch.induct) (auto simp: Let_def split: if_splits)

section \<open>One call of the sender\<close>

definition invoke_ok :: "int \<Rightarrow> u32 \<Rightarrow> bool" where
  "invoke_ok ret inv_ret \<longleftrightarrow> 0 \<le> ret \<and> (inv_ret = TEEC_SUCCESS \<or> inv_ret = TEEC_ERROR_SHORT_BUFFER)"

text \<open>The messages TA-Collect has accepted, and the resources of the driver still held.\<close>

fun ok_message :: "kcall \<Rightarrow> char list option" where
  "ok_message (K_invoke c se f data ret inv_ret) = (if invoke_ok ret inv_ret then Some data else None)"
| "ok_message _ = None"

definition messages :: "kcall list \<Rightarrow> string list" where
  "messages t = List.map_filter ok_message t"

fun ctx_delta :: "kcall \<Rightarrow> int" where
  "ctx_delta (K_open_context (Some c)) = 1"
| "ctx_delta (K_close_context c) = -1"
| "ctx_delta _ = 0"

fun shm_delta :: "kcall \<Rightarrow> int" where
  "shm_delta (K_shm_alloc c n (Some m)) = 1"
| "shm_delta (K_shm_free m) = -1"
| "shm_delta _ = 0"

definition contexts_held :: "kcall list \<Rightarrow> int" where
  "contexts_held t = sum_list (map ctx_delta t)"

definition shm_held :: "kcall list \<Rightarrow> int" where
  "shm_held t = sum_list (map shm_delta t)"

definition sessions_closed :: "kcall list \<Rightarrow> nat" where
  "sessions_closed t = length (filter (\<lambda>c. case c of K_close_session _ _ \<Rightarrow> True | _ \<Rightarrow> False) t)"

lemma ktrace_simps [simp]:
  "sessions_closed [] = 0" "sessions_closed (t @ u) = sessions_closed t + sessions_closed u"
  "sessions_closed (c # t) = (case c of K_close_session _ _ \<Rightarrow> 1 | _ \<Rightarrow> 0) + sessions_closed t"
  "messages [] = []" "contexts_held [] = 0" "shm_held [] = 0"
  "messages (t @ u) = messages t @ messages u"
  "contexts_held (t @ u) = contexts_held t + contexts_held u" "shm_held (t @ u) = shm_held t + shm_held u"
  "messages (c # t) = (case ok_message c of None \<Rightarrow> [] | Some d \<Rightarrow> [d]) @ messages t"
  "contexts_held (c # t) = ctx_delta c + contexts_held t" "shm_held (c # t) = shm_delta c + shm_held t"
  by (simp_all add: messages_def contexts_held_def shm_held_def sessions_closed_def List.map_filter_def
      split: option.splits kcall.splits)

text \<open>What the uninitialised arrays hold: anything, with a terminator in the longer one.\<close>

definition stack_ok :: "kenv \<Rightarrow> bool" where
  "stack_ok E \<longleftrightarrow> (\<forall>t. length (stack_event_log E t) = 1024 \<and>
     length (stack_summary_log E t) = 12000 \<and> NUL \<in> set (stack_summary_log E t))"

lemma ta_create_session_outcome:
  assumes "ta_create_session E s = (rc, s')"
  shows "queue s' = queue s" and "messages (kcalls s') = messages (kcalls s)"
    and "shm_held (kcalls s') = shm_held (kcalls s)"
    and "sessions_closed (kcalls s') = sessions_closed (kcalls s)"
    and "rc = 0 \<and> (\<exists>c. tee_ctx s' = Ptr c) \<and> contexts_held (kcalls s') = contexts_held (kcalls s) + 1 \<or>
      rc = -1 \<and> contexts_held (kcalls s') = contexts_held (kcalls s)"
  using assms by (auto simp: ta_create_session_def Let_def split: option.splits prod.splits if_splits)

lemma ta_invoke_returns:
  assumes "unat len \<le> length b"
  obtains rc s' where "ta_invoke E (Ptr c) se f b len s = Inr (rc, s')"
proof -
  have "memcpy (replicate (unat len) NUL) b (unat len) = Inr (take (unat len) b)"
    using assms by (simp add: memcpy_def)
  then have "\<exists>x. ta_invoke E (Ptr c) se f b len s = Inr x"
    by (simp add: ta_invoke_def Let_def split: option.splits prod.splits)
  then show thesis using that by force
qed

lemma ta_invoke_outcome:
  assumes "ta_invoke E (Ptr c) se f b len s = Inr (rc, s')"
  shows "queue s' = queue s" and "tee_ctx s' = tee_ctx s"
    and "contexts_held (kcalls s') = contexts_held (kcalls s)"
    and "sessions_closed (kcalls s') = sessions_closed (kcalls s)"
    and "rc = 0 \<and> messages (kcalls s') = messages (kcalls s) @ [take (unat len) b] \<and>
        shm_held (kcalls s') = shm_held (kcalls s) \<or>
      rc < 0 \<and> messages (kcalls s') = messages (kcalls s) \<and>
        (rc = -22 \<longrightarrow> shm_held (kcalls s') = shm_held (kcalls s) + 1)"
  using assms
  by (auto simp: ta_invoke_def Let_def memcpy_def invoke_ok_def split: option.splits prod.splits if_splits)

text \<open>Drivers that always serve a message, and drivers that always fail it after the copy.\<close>

definition driver_ok :: "kenv \<Rightarrow> bool" where
  "driver_ok E \<longleftrightarrow> (\<forall>t c n. tee_shm_alloc E t c n \<noteq> None) \<and>
     (\<forall>t c se f d. invoke_ok (fst (tee_client_invoke_func E t c se f d)) (snd (tee_client_invoke_func E t c se f d)))"

definition driver_fails :: "kenv \<Rightarrow> bool" where
  "driver_fails E \<longleftrightarrow> (\<forall>t c n. tee_shm_alloc E t c n \<noteq> None) \<and>
     (\<forall>t c se f d. \<not> invoke_ok (fst (tee_client_invoke_func E t c se f d)) (snd (tee_client_invoke_func E t c se f d)))"

lemma ta_invoke_code:
  assumes "ta_invoke E (Ptr c) se f b len s = Inr (rc, s')" and "tee_shm_alloc E (kcalls s) c len = Some m"
  shows "rc = (let r = tee_client_invoke_func E (kcalls s @ [K_shm_alloc c len (Some m)]) c se f (take (unat len) b)
    in if invoke_ok (fst r) (snd r) then 0 else -22)"
  using assms
  by (auto simp: ta_invoke_def Let_def invoke_ok_def memcpy_def case_prod_beta not_less split: sum.splits if_splits)

lemma ta_invoke_driver:
  assumes "ta_invoke E (Ptr c) se f b len s = Inr (rc, s')"
  shows "driver_ok E \<Longrightarrow> rc = 0" and "driver_fails E \<Longrightarrow> rc = -22"
proof -
  show "rc = 0" if d: "driver_ok E"
  proof -
    obtain m where "tee_shm_alloc E (kcalls s) c len = Some m" using d unfolding driver_ok_def by (metis not_None_eq)
    from ta_invoke_code [OF assms this] d show ?thesis by (simp add: driver_ok_def Let_def)
  qed
  show "rc = -22" if d: "driver_fails E"
  proof -
    obtain m where "tee_shm_alloc E (kcalls s) c len = Some m" using d unfolding driver_fails_def by (metis not_None_eq)
    from ta_invoke_code [OF assms this] d show ?thesis by (simp add: driver_fails_def Let_def)
  qed
qed

lemma summary_cleared:
  assumes "stack_ok E"
  obtains n b where "strlen (stack_summary_log E t) = Inr n" and "memset (stack_summary_log E t) NUL n = Inr b"
    and "holds_text b []"
proof -
  let ?g = "stack_summary_log E t"
  have g: "NUL \<in> set ?g" "length ?g = 12000" using assms by (simp_all add: stack_ok_def)
  then have "length (cstr ?g) \<le> length ?g" using cstr_length_less [OF g(1)] by simp
  then obtain b where b: "memset ?g NUL (length (cstr ?g)) = Inr b" by (simp add: memset_def)
  show thesis
    by (rule that [OF strlen_terminated [OF g(1)] b])
       (use memset_zero_clears [OF b g(1)] g in \<open>simp add: holds_text_def\<close>)
qed

text \<open>
  The three outcomes of \<^verbatim>\<open>send_eventlog_ta_collect\<close> with at least two records waiting: no
  session and nothing changed, a batch taken and delivered, a batch taken and lost. The last
  one drops the context pointer without closing the context.
\<close>

definition sender_ready :: "kenv \<Rightarrow> kstate \<Rightarrow> bool" where
  "sender_ready E s \<longleftrightarrow> stack_ok E \<and> ring_inv (queue s) \<and> tee_ctx s \<noteq> Err_ptr"

definition not_connected :: "kstate \<Rightarrow> kstate \<Rightarrow> bool" where
  "not_connected s s' \<longleftrightarrow> tee_ctx s = Null \<and> tee_ctx s' = Null \<and> queue s' = queue s \<and>
     messages (kcalls s') = messages (kcalls s) \<and> contexts_held (kcalls s') = contexts_held (kcalls s) \<and>
     shm_held (kcalls s') = shm_held (kcalls s) \<and> sessions_closed (kcalls s') = sessions_closed (kcalls s)"

definition batch_taken :: "kstate \<Rightarrow> string list \<Rightarrow> kstate \<Rightarrow> bool" where
  "batch_taken s rest s' \<longleftrightarrow> ring_inv (queue s') \<and> items (queue s') = rest \<and>
     contexts_held (kcalls s') = contexts_held (kcalls s) + (if tee_ctx s = Null then 1 else 0)"

lemma gather_into_stack:
  assumes "stack_ok E" and "ring_inv q" and "batch (items q) [] None = (msg, Some n, rest)"
  obtains n0 b0 b1 q1 where "strlen (stack_summary_log E t) = Inr n0"
    and "memset (stack_summary_log E t) NUL n0 = Inr b0"
    and "gather (stack_event_log E t) b0 None q = Inr (b1, Some n, q1)"
    and "ring_inv q1" and "items q1 = rest" and "take n b1 = msg" and "n \<le> length b1" and "n < 12000"
proof -
  obtain n0 b0 where b0: "strlen (stack_summary_log E t) = Inr n0" "memset (stack_summary_log E t) NUL n0 = Inr b0"
      "holds_text b0 []"
    by (rule summary_cleared [OF assms(1)])
  have ev: "slot_buffer (stack_event_log E t)" using assms(1) by (simp add: stack_ok_def slot_buffer_def SLOT_SIZE_def)
  obtain b1 q1 where g: "gather (stack_event_log E t) b0 None q = Inr (b1, Some n, q1)" "ring_inv q1"
      "items q1 = rest" "holds_text b1 msg"
    using gather_batch [OF assms(2) ev b0(3) _ assms(3)] by auto
  have n: "n = length msg" using batch_splits [OF assms(3)] by auto
  have b1: "NUL \<in> set b1" "cstr b1 = msg" "length b1 = 12000" using g(4) by (simp_all add: holds_text_def)
  show thesis
    by (rule that [OF b0(1,2) g(1-3)])
       (use n b1 cstr_prefix [of b1] cstr_length_less [OF b1(1)] in simp_all)
qed

lemma connect_outcome:
  assumes "sender_ready E s"
  obtains rc s1 where "(if tee_ctx s = Null then ta_create_session E s else (0, s)) = (rc, s1)" "queue s1 = queue s"
    "messages (kcalls s1) = messages (kcalls s)" "shm_held (kcalls s1) = shm_held (kcalls s)"
    "sessions_closed (kcalls s1) = sessions_closed (kcalls s)"
    "rc = 0 \<and> (\<exists>c. tee_ctx s1 = Ptr c) \<and>
       contexts_held (kcalls s1) = contexts_held (kcalls s) + (if tee_ctx s = Null then 1 else 0) \<or>
     rc = -1 \<and> tee_ctx s = Null \<and> contexts_held (kcalls s1) = contexts_held (kcalls s)"
proof (cases "tee_ctx s = Null")
  case True
  obtain rc s1 where cs: "ta_create_session E s = (rc, s1)" by fastforce
  show thesis by (rule that [of rc s1]) (use True cs ta_create_session_outcome [OF cs] in auto)
next
  case False
  then obtain c where "tee_ctx s = Ptr c" using assms(1) by (cases "tee_ctx s") (auto simp: sender_ready_def)
  with False show thesis by (intro that [of 0 s]) auto
qed

text \<open>The rest of the call once a session is there.\<close>

lemma connected_outcome:
  assumes "(if tee_ctx s = Null then ta_create_session E s else (0, s)) = (0, s1)" and "tee_ctx s1 = Ptr c"
    and "stack_ok E" and "ring_inv (queue s1)" and "batch (items (queue s1)) [] None = (msg, Some n, rest)"
  obtains rc s' where "send_eventlog_ta_collect E s = Inr (rc, s')" "ring_inv (queue s')" "items (queue s') = rest"
    "contexts_held (kcalls s') = contexts_held (kcalls s1)"
    "rc = 0 \<and> tee_ctx s' = Ptr c \<and> messages (kcalls s') = messages (kcalls s1) @ [msg] \<and>
       shm_held (kcalls s') = shm_held (kcalls s1) \<and> sessions_closed (kcalls s') = sessions_closed (kcalls s1) \<or>
     rc = -1 \<and> tee_ctx s' = Null \<and> messages (kcalls s') = messages (kcalls s1) \<and>
       sessions_closed (kcalls s') = sessions_closed (kcalls s1) + 1"
    "driver_ok E \<longrightarrow> rc = 0" "driver_fails E \<longrightarrow> rc = -1 \<and> shm_held (kcalls s') = shm_held (kcalls s1) + 1"
proof -
  obtain n0 b0 b1 q1 where g: "strlen (stack_summary_log E (kcalls s1)) = Inr n0"
      "memset (stack_summary_log E (kcalls s1)) NUL n0 = Inr b0"
      "gather (stack_event_log E (kcalls s1)) b0 None (queue s1) = Inr (b1, Some n, q1)"
      "ring_inv q1" "items q1 = rest" "take n b1 = msg" "n \<le> length b1" "n < 12000"
    by (rule gather_into_stack [OF assms(3-5)])
  have un: "unat (of_nat n :: u64) = n" using g(8) by (simp add: unat_of_nat take_bit_nat_eq_self)
  then have le: "unat (of_nat n :: u64) \<le> length b1" using g(7) by simp
  obtain rc2 s2 where r: "ta_invoke E (Ptr c) (sess_session s1) 1 b1 (of_nat n) (s1\<lparr>queue := q1\<rparr>) = Inr (rc2, s2)"
    by (rule ta_invoke_returns [OF le])
  note i = ta_invoke_outcome [OF r, unfolded un g(6)]
  note unf = send_eventlog_ta_collect_def assms(1) g(1) g(2) g(3) assms(2) r
  show thesis
  proof (cases "rc2 < 0")
    case False
    then show thesis
      by (intro that [of 0 s2]) (use i ta_invoke_driver [OF r] g(4,5) assms(2) in \<open>auto simp: unf\<close>)
  next
    case True
    then show thesis
      by (intro that [of "-1" "(kcall_add (K_close_session c (sess_session s2)) s2)\<lparr>tee_ctx := Null\<rparr>"])
         (use i ta_invoke_driver [OF r] g(4,5) assms(2) in \<open>auto simp: unf\<close>)
  qed
qed

lemma send_eventlog_outcome:
  assumes "sender_ready E s" and "batch (items (queue s)) [] None = (msg, Some n, rest)"
  obtains rc s' where "send_eventlog_ta_collect E s = Inr (rc, s')"
    and "rc = -1 \<and> not_connected s s' \<or>
      rc = 0 \<and> batch_taken s rest s' \<and> (\<exists>c. tee_ctx s' = Ptr c) \<and>
        messages (kcalls s') = messages (kcalls s) @ [msg] \<and> shm_held (kcalls s') = shm_held (kcalls s) \<and>
        sessions_closed (kcalls s') = sessions_closed (kcalls s) \<or>
      rc = -1 \<and> batch_taken s rest s' \<and> tee_ctx s' = Null \<and> messages (kcalls s') = messages (kcalls s) \<and>
        sessions_closed (kcalls s') = sessions_closed (kcalls s) + 1"
proof -
  obtain rc s1 where s1: "(if tee_ctx s = Null then ta_create_session E s else (0, s)) = (rc, s1)" "queue s1 = queue s"
      "messages (kcalls s1) = messages (kcalls s)" "shm_held (kcalls s1) = shm_held (kcalls s)"
      "sessions_closed (kcalls s1) = sessions_closed (kcalls s)"
      "rc = 0 \<and> (\<exists>c. tee_ctx s1 = Ptr c) \<and>
         contexts_held (kcalls s1) = contexts_held (kcalls s) + (if tee_ctx s = Null then 1 else 0) \<or>
       rc = -1 \<and> tee_ctx s = Null \<and> contexts_held (kcalls s1) = contexts_held (kcalls s)"
    by (rule connect_outcome [OF assms(1)])
  show thesis
  proof (cases "rc = 0")
    case False
    then show thesis using s1
      by (intro that [of "-1" "s1\<lparr>tee_ctx := Null\<rparr>"])
         (auto simp: send_eventlog_ta_collect_def not_connected_def)
  next
    case True
    then obtain c where c: "tee_ctx s1 = Ptr c" using s1(6) by auto
    have inv: "stack_ok E" "ring_inv (queue s1)" "batch (items (queue s1)) [] None = (msg, Some n, rest)"
      using assms s1(2) by (simp_all add: sender_ready_def)
    show thesis
      by (rule connected_outcome [OF s1(1) [unfolded True] c inv])
         (rule that, use s1 True in \<open>auto simp: batch_taken_def\<close>)
  qed
qed

section \<open>The audit thread and the loggers as a transition system\<close>

text \<open>
  A step is one \<^verbatim>\<open>audit_log_end\<close> or one pass of the audit thread. Reachable states carry the
  history of the records that entered the ring.
\<close>

datatype klabel = Log_end "char list option" bool | Wakeup

inductive kstep :: "kenv \<Rightarrow> kstate \<Rightarrow> klabel \<Rightarrow> kstate \<Rightarrow> bool" for E where
  log_end: "audit_log_end E ab ok s = Inr s' \<Longrightarrow> kstep E s (Log_end ab ok) s'"
| wakeup: "kauditd_call_ta E s = Inr s' \<Longrightarrow> kstep E s Wakeup s'"

inductive_cases kstep_log_end [elim]: "kstep E s (Log_end ab ok) s'"
inductive_cases kstep_wakeup [elim]: "kstep E s Wakeup s'"

definition recorded :: "klabel \<Rightarrow> kstate \<Rightarrow> kstate \<Rightarrow> string list" where
  "recorded l s s' = (case l of Log_end _ _ \<Rightarrow> drop (length (items (queue s))) (items (queue s')) | Wakeup \<Rightarrow> [])"

inductive kreach :: "kenv \<Rightarrow> string list \<Rightarrow> kstate \<Rightarrow> bool" for E where
  init: "kreach E [] kinit"
| step: "kreach E hist s \<Longrightarrow> kstep E s l s' \<Longrightarrow> kreach E (hist @ recorded l s s') s'"

lemma audit_log_end_outcome:
  assumes "audit_log_end E ab ok s = Inr s'" and "ring_inv (queue s)"
  shows "ring_inv (queue s') \<and> kcalls s' = kcalls s \<and> tee_ctx s' = tee_ctx s \<and>
    (\<exists>new. items (queue s') = items (queue s) @ new \<and> length new \<le> 1)"
proof (cases "\<exists>m. ab = Some m \<and> ok")
  case False
  with assms show ?thesis by (auto simp: audit_log_end_def split: option.splits if_splits)
next
  case True
  then obtain m r q where e: "enqueue (audit_log_format_node E m) (queue s) = Inr (r, q)" "s' = s\<lparr>queue := q\<rparr>"
    using assms(1) by (auto simp: audit_log_end_def split: sum.splits)
  show ?thesis
  proof (cases "queue_num (queue s) < QUEUE_SIZE")
    case True
    then have "fits_slot (audit_log_format_node E m)"
      using e(1) assms(2)
      by (auto simp: enqueue_def enqueue_slot fits_slot_def strcpy_iff strlen_iff ring_inv_def Let_def
          split: sum.splits)
    then obtain d where "enqueue (audit_log_format_node E m) (queue s) = Inr (0, put (queue s) d)"
        "length d = SLOT_SIZE" "NUL \<in> set d"
      by (rule enqueue_put [OF assms(2) _ True])
    with e assms(2) True show ?thesis by (auto simp: ring_inv_put items_put)
  next
    case False
    with e assms(2) show ?thesis by (auto simp: enqueue_def split: sum.splits)
  qed
qed

text \<open>A pass of the audit thread: nothing to do, not connected, delivered, or lost.\<close>

definition pass_sends :: "kstate \<Rightarrow> string list \<Rightarrow> kstate \<Rightarrow> bool" where
  "pass_sends s sent s' \<longleftrightarrow> messages (kcalls s') = messages (kcalls s) @ [log_lines sent] \<and>
     length (log_lines sent) \<le> 11024"

lemma kauditd_outcome:
  assumes "sender_ready E s"
  obtains s' where "kauditd_call_ta E s = Inr s'" and "sender_ready E s'"
    and "queue s' = queue s \<and> messages (kcalls s') = messages (kcalls s) \<or>
      (\<exists>sent lost. items (queue s) = sent @ lost @ items (queue s') \<and> length lost \<le> 1 \<and>
         (pass_sends s sent s' \<or> messages (kcalls s') = messages (kcalls s)))"
    and "contexts_held (kcalls s') - (if tee_ctx s' = Null then 0 else 1) - int (sessions_closed (kcalls s')) =
      contexts_held (kcalls s) - (if tee_ctx s = Null then 0 else 1) - int (sessions_closed (kcalls s))"
proof (cases "500 \<le> queue_num (queue s)")
  case False
  then show thesis by (intro that [of s]) (use assms in \<open>simp_all add: kauditd_call_ta_def\<close>)
next
  case True
  obtain msg l rest where b: "batch (items (queue s)) [] None = (msg, l, rest)" by (metis prod_cases3)
  have "2 \<le> length (items (queue s))" using True by (simp add: length_items)
  then obtain sent lost where sp: "items (queue s) = sent @ lost @ rest" "msg = log_lines sent" "length lost \<le> 1"
      "l = Some (length msg)"
    using batch_splits [OF b] by auto
  have short: "length msg \<le> 11024"
    using batch_length_bound [OF b] items_short assms by (force simp: sender_ready_def SLOT_SIZE_def)
  obtain rc s' where o: "send_eventlog_ta_collect E s = Inr (rc, s')"
      "rc = -1 \<and> not_connected s s' \<or>
       rc = 0 \<and> batch_taken s rest s' \<and> (\<exists>c. tee_ctx s' = Ptr c) \<and>
         messages (kcalls s') = messages (kcalls s) @ [msg] \<and> shm_held (kcalls s') = shm_held (kcalls s) \<and>
         sessions_closed (kcalls s') = sessions_closed (kcalls s) \<or>
       rc = -1 \<and> batch_taken s rest s' \<and> tee_ctx s' = Null \<and> messages (kcalls s') = messages (kcalls s) \<and>
         sessions_closed (kcalls s') = sessions_closed (kcalls s) + 1"
    by (rule send_eventlog_outcome [OF assms b [unfolded sp(4)]])
  show thesis
  proof (rule that)
    show "kauditd_call_ta E s = Inr s'" using True o(1) by (simp add: kauditd_call_ta_def)
    show "sender_ready E s'"
      using o(2) assms by (auto simp: sender_ready_def not_connected_def batch_taken_def)
    show "queue s' = queue s \<and> messages (kcalls s') = messages (kcalls s) \<or>
      (\<exists>sent lost. items (queue s) = sent @ lost @ items (queue s') \<and> length lost \<le> 1 \<and>
         (pass_sends s sent s' \<or> messages (kcalls s') = messages (kcalls s)))"
      using o(2) sp short by (auto simp: not_connected_def batch_taken_def pass_sends_def)
    show "contexts_held (kcalls s') - (if tee_ctx s' = Null then 0 else 1) - int (sessions_closed (kcalls s')) =
      contexts_held (kcalls s) - (if tee_ctx s = Null then 0 else 1) - int (sessions_closed (kcalls s))"
      using o(2) assms by (auto simp: not_connected_def batch_taken_def sender_ready_def)
  qed
qed

definition kinv :: "kenv \<Rightarrow> string list \<Rightarrow> kstate \<Rightarrow> bool" where
  "kinv E hist s \<longleftrightarrow> sender_ready E s \<and>
     (\<exists>yss. subseq (concat yss @ items (queue s)) hist \<and> messages (kcalls s) = map log_lines yss) \<and>
     (\<forall>m \<in> set (messages (kcalls s)). length m \<le> 11024) \<and>
     contexts_held (kcalls s) = (if tee_ctx s = Null then 0 else 1) + int (sessions_closed (kcalls s))"

lemma kinv_log_end:
  assumes "kinv E hist s" and "audit_log_end E ab ok s = Inr s'"
  shows "kinv E (hist @ drop (length (items (queue s))) (items (queue s'))) s'"
proof -
  have "ring_inv (queue s)" using assms(1) by (simp add: kinv_def sender_ready_def)
  from audit_log_end_outcome [OF assms(2) this] obtain new where
      "ring_inv (queue s')" "kcalls s' = kcalls s" "tee_ctx s' = tee_ctx s" "items (queue s') = items (queue s) @ new"
    by blast
  moreover have "subseq (ys @ items (queue s) @ new) (hist @ new)" if "subseq (ys @ items (queue s)) hist" for ys
    using list_emb_append_mono [OF that subseq_order.order_refl [of new]] by simp
  ultimately show ?thesis using assms(1) by (auto simp: kinv_def sender_ready_def)
qed

lemma subseq_take_batch:
  assumes "subseq (ys @ sent @ lost @ rest) hist"
  shows "subseq ((ys @ sent) @ rest) hist" and "subseq (ys @ rest) hist"
proof -
  have "subseq ((ys @ sent) @ rest) ((ys @ sent) @ lost @ rest)"
    by (intro list_emb_append_mono) (auto simp: list_emb_append2)
  then show "subseq ((ys @ sent) @ rest) hist" using assms by (simp add: subseq_order.trans)
  have "subseq (ys @ rest) (ys @ (sent @ lost) @ rest)"
    by (intro list_emb_append_mono) (auto simp: list_emb_append2)
  then show "subseq (ys @ rest) hist" using assms by (simp add: subseq_order.trans)
qed

lemma kinv_wakeup:
  assumes "kinv E hist s" and "kauditd_call_ta E s = Inr s'"
  shows "kinv E hist s'"
proof -
  have ready: "sender_ready E s" using assms(1) by (simp add: kinv_def)
  obtain yss where ys: "subseq (concat yss @ items (queue s)) hist" "messages (kcalls s) = map log_lines yss"
    using assms(1) by (auto simp: kinv_def)
  obtain s1 where o: "kauditd_call_ta E s = Inr s1" "sender_ready E s1"
      "queue s1 = queue s \<and> messages (kcalls s1) = messages (kcalls s) \<or>
       (\<exists>sent lost. items (queue s) = sent @ lost @ items (queue s1) \<and> length lost \<le> 1 \<and>
          (pass_sends s sent s1 \<or> messages (kcalls s1) = messages (kcalls s)))"
      "contexts_held (kcalls s1) - (if tee_ctx s1 = Null then 0 else 1) - int (sessions_closed (kcalls s1)) =
       contexts_held (kcalls s) - (if tee_ctx s = Null then 0 else 1) - int (sessions_closed (kcalls s))"
    by (rule kauditd_outcome [OF ready])
  have s1: "s1 = s'" using o(1) assms(2) by simp
  have "\<exists>zss. subseq (concat zss @ items (queue s1)) hist \<and> messages (kcalls s1) = map log_lines zss"
    using o(3)
  proof (elim disjE exE conjE)
    fix sent lost
    assume a: "items (queue s) = sent @ lost @ items (queue s1)" "pass_sends s sent s1"
    then show ?thesis using ys subseq_take_batch(1) [of "concat yss" sent lost "items (queue s1)" hist]
      by (intro exI [of _ "yss @ [sent]"]) (simp add: pass_sends_def)
  next
    fix sent lost
    assume "items (queue s) = sent @ lost @ items (queue s1)" "messages (kcalls s1) = messages (kcalls s)"
    then show ?thesis using ys subseq_take_batch(2) [of "concat yss" sent lost "items (queue s1)" hist]
      by (intro exI [of _ yss]) simp
  qed (use ys in auto)
  moreover have "\<forall>m \<in> set (messages (kcalls s1)). length m \<le> 11024"
    using o(3) assms(1) by (auto simp: kinv_def pass_sends_def)
  ultimately show ?thesis using o(2,4) assms(1) by (simp add: kinv_def s1)
qed

lemma kreach_inv:
  assumes "kreach E hist s" and "stack_ok E"
  shows "kinv E hist s"
  using assms(1)
proof induction
  case init
  show ?case using assms(2) by (auto simp: kinv_def kinit_def sender_ready_def intro: exI [of _ "[]"])
next
  case (step hist s l s')
  from step.hyps(2) show ?case
    by cases (use step.IH in \<open>auto simp: recorded_def kinv_log_end kinv_wakeup\<close>)
qed

section \<open>Repeated passes\<close>

text \<open>A driver that always gives a context and a session.\<close>

definition sessions_open_ok :: "kenv \<Rightarrow> bool" where
  "sessions_open_ok E \<longleftrightarrow> (\<forall>t. tee_client_open_context E t (optee_ctx_match E) \<noteq> None) \<and>
     (\<forall>t c u. 0 \<le> fst (tee_client_open_session E t c u) \<and> fst (snd (tee_client_open_session E t c u)) = TEEC_SUCCESS)"

fun kauditd_passes :: "kenv \<Rightarrow> nat \<Rightarrow> kstate \<Rightarrow> kstate c_result" where
  "kauditd_passes E 0 s = Inr s"
| "kauditd_passes E (Suc n) s = (case kauditd_call_ta E s of Inl e \<Rightarrow> Inl e | Inr s' \<Rightarrow> kauditd_passes E n s')"

lemma connect_opens:
  assumes "sender_ready E s" and "sessions_open_ok E"
  obtains s1 c where "(if tee_ctx s = Null then ta_create_session E s else (0, s)) = (0, s1)"
    and "tee_ctx s1 = Ptr c" and "queue s1 = queue s"
proof (cases "tee_ctx s")
  case Null
  obtain c where c: "tee_client_open_context E (kcalls s) (optee_ctx_match E) = Some c"
    using assms(2) unfolding sessions_open_ok_def by blast
  let ?t = "kcalls s @ [K_open_context (Some c)]"
  obtain rc ret se where o: "tee_client_open_session E ?t c introspection_ta_uuid = (rc, ret, se)" by (metis prod_cases3)
  have "0 \<le> rc" "ret = TEEC_SUCCESS"
    using assms(2) o by (auto simp: sessions_open_ok_def) (metis fst_conv snd_conv)+
  let ?s1 = "kcall_add (K_open_session c rc ret se)
    ((kcall_add (K_open_context (Some c)) (s\<lparr>sess_session := 0, tee_ctx := Ptr c\<rparr>))\<lparr>sess_session := se\<rparr>)"
  show thesis
    by (rule that [of ?s1 c]) (use Null c o \<open>0 \<le> rc\<close> \<open>ret = TEEC_SUCCESS\<close> in \<open>simp_all add: ta_create_session_def\<close>)
qed (use assms(1) that [of s] in \<open>auto simp: sender_ready_def\<close>)

lemma kauditd_progress:
  assumes "sender_ready E s" and "driver_ok E" and "sessions_open_ok E" and "500 \<le> queue_num (queue s)"
  obtains s' where "kauditd_call_ta E s = Inr s'" and "sender_ready E s'"
    and "length (items (queue s')) < length (items (queue s))"
proof -
  obtain msg l rest where b: "batch (items (queue s)) [] None = (msg, l, rest)" by (metis prod_cases3)
  have "2 \<le> length (items (queue s))" using assms(4) by (simp add: length_items)
  then obtain sent lost where sp: "items (queue s) = sent @ lost @ rest" "l = Some (length msg)" "sent \<noteq> []"
    using batch_splits [OF b] by auto
  obtain s1 c where s1: "(if tee_ctx s = Null then ta_create_session E s else (0, s)) = (0, s1)"
      "tee_ctx s1 = Ptr c" "queue s1 = queue s"
    by (rule connect_opens [OF assms(1,3)])
  have ok: "stack_ok E" "ring_inv (queue s1)" "batch (items (queue s1)) [] None = (msg, Some (length msg), rest)"
    using assms(1) b sp(2) s1(3) by (simp_all add: sender_ready_def)
  obtain rc s' where s': "send_eventlog_ta_collect E s = Inr (rc, s')" "ring_inv (queue s')" "items (queue s') = rest"
      "tee_ctx s' \<noteq> Err_ptr"
    by (rule connected_outcome [OF s1(1,2) ok]) auto
  show thesis
    by (rule that [of s']) (use s' sp ok(1) assms(4) in \<open>auto simp: kauditd_call_ta_def sender_ready_def\<close>)
qed

lemma kauditd_passes_drain:
  assumes "driver_ok E" and "sessions_open_ok E" and "sender_ready E s" and "length (items (queue s)) < 500 + n"
  shows "\<exists>s'. kauditd_passes E n s = Inr s' \<and> sender_ready E s' \<and> queue_num (queue s') < 500"
  using assms(3,4)
proof (induction n arbitrary: s)
  case 0
  then show ?case by (simp add: length_items sender_ready_def)
next
  case (Suc n)
  show ?case
  proof (cases "500 \<le> queue_num (queue s)")
    case True
    obtain s' where s': "kauditd_call_ta E s = Inr s'" "sender_ready E s'" "length (items (queue s')) < length (items (queue s))"
      by (rule kauditd_progress [OF Suc.prems(1) assms(1,2) True])
    from Suc.IH [OF s'(2)] s'(1,3) Suc.prems(2) show ?thesis by simp
  next
    case False
    then have "kauditd_call_ta E s = Inr s" by (simp add: kauditd_call_ta_def)
    moreover have "length (items (queue s)) < 500 + n" using False by (simp add: length_items)
    ultimately show ?thesis using Suc.IH [OF Suc.prems(1)] by simp
  qed
qed

section \<open>What is handed to the trusted application\<close>

text \<open>Every message handed over, with the kernel's verdict on it; the accepted ones are \<^verbatim>\<open>messages\<close>.\<close>

fun handed_of :: "kcall \<Rightarrow> (u32 \<times> char list \<times> bool) option" where
  "handed_of (K_invoke c se f data ret inv_ret) = Some (f, data, invoke_ok ret inv_ret)"
| "handed_of _ = None"

definition handed :: "kcall list \<Rightarrow> (u32 \<times> char list \<times> bool) list" where
  "handed t = List.map_filter handed_of t"

lemma handed_simps [simp]:
  "handed [] = []" "handed (t @ u) = handed t @ handed u"
  "handed (c # t) = (case handed_of c of None \<Rightarrow> [] | Some x \<Rightarrow> [x]) @ handed t"
  by (simp_all add: handed_def List.map_filter_def split: option.splits)

lemma messages_handed: "messages t = map (\<lambda>(f, d, ok). d) (filter (\<lambda>(f, d, ok). ok) (handed t))"
proof (induction t)
  case (Cons c t)
  then show ?case by (cases c) auto
qed simp

definition handed_ok :: "kenv \<Rightarrow> kcall list \<Rightarrow> bool" where
  "handed_ok E t \<longleftrightarrow> (\<forall>x \<in> set (handed t). fst x = 1 \<and> length (fst (snd x)) \<le> 12000 \<and> (driver_ok E \<longrightarrow> snd (snd x)))"

lemma driver_ok_invoke: "driver_ok E \<Longrightarrow> tee_client_invoke_func E t c se f d = (r, i) \<Longrightarrow> invoke_ok r i"
  unfolding driver_ok_def by (metis fst_conv snd_conv)

lemma ta_invoke_handed:
  assumes "ta_invoke E ctx se 1 b len s = Inr (rc, s')" and "handed_ok E (kcalls s)" and "length b \<le> 12000"
  shows "handed_ok E (kcalls s')"
  using assms driver_ok_invoke [of E]
  by (auto simp: ta_invoke_def Let_def memcpy_def handed_ok_def
      split: kptr.splits option.splits prod.splits if_splits)

lemma ta_create_session_handed: "ta_create_session E s = (rc, s') \<Longrightarrow> handed (kcalls s') = handed (kcalls s)"
  by (auto simp: ta_create_session_def Let_def split: option.splits prod.splits if_splits)

section \<open>Properties\<close>

text \<open>A driver that serves everything, for the witnesses, and the state after one record was logged.\<close>

definition calm_kenv :: kenv where
  "calm_kenv = \<lparr>TEE_IMPL_ID_OPTEE = 1, tee_client_open_context = (\<lambda>t f. if f 1 = 1 then Some 0 else None),
     tee_client_open_session = (\<lambda>t c u. (0, TEEC_SUCCESS, 7)), tee_shm_alloc = (\<lambda>t c n. Some (length t)),
     tee_client_invoke_func = (\<lambda>t c se f d. (0, TEEC_SUCCESS)), audit_log_format_node = (\<lambda>m. m @ lit '',node=n''),
     stack_event_log = (\<lambda>t. replicate 1024 NUL), stack_summary_log = (\<lambda>t. replicate 12000 NUL)\<rparr>"

lemma calm_stack: "stack_ok calm_kenv"
  by (simp add: stack_ok_def calm_kenv_def)

lemma calm_driver: "driver_ok calm_kenv"
  by (simp add: driver_ok_def calm_kenv_def invoke_ok_def)

text \<open>Ready-made rings: every record list that fits is the contents of a valid ring.\<close>

definition ring_of :: "string list \<Rightarrow> ring" where
  "ring_of xs = \<lparr>queue_head = 0, queue_num = int (length xs),
     test_queue = (\<lambda>i. if 0 \<le> i \<and> nat i < length xs then xs ! nat i @ replicate (SLOT_SIZE - length (xs ! nat i)) NUL
                       else replicate SLOT_SIZE NUL)\<rparr>"

lemma cstr_padded: "NUL \<notin> set x \<Longrightarrow> length x < n \<Longrightarrow> cstr (x @ replicate (n - length x) NUL) = x"
  using cstr_append [of x "replicate (n - length x - 1) NUL"]
  by (simp flip: replicate_Suc add: Suc_diff_Suc)

lemma ring_of_ok:
  assumes "length xs \<le> 15000" and "\<forall>x \<in> set xs. NUL \<notin> set x \<and> length x < SLOT_SIZE"
  shows "ring_inv (ring_of xs)" and "items (ring_of xs) = xs"
proof -
  have slot: "slot_of (ring_of xs) (int k) = int k" if "k < length xs" for k
    using that assms(1) by (simp add: slot_of_def ring_of_def QUEUE_SIZE_def)
  have get: "test_queue (ring_of xs) (int k) = xs ! k @ replicate (SLOT_SIZE - length (xs ! k)) NUL"
    if "k < length xs" for k
    using that by (simp add: ring_of_def)
  have x: "NUL \<notin> set (xs ! k)" "length (xs ! k) < SLOT_SIZE" if "k < length xs" for k
    using that assms(2) by simp_all
  show "items (ring_of xs) = xs"
    by (rule nth_equalityI) (simp_all add: items_def slot get x cstr_padded ring_of_def [THEN arg_cong [of _ _ queue_num]])
  have "NUL \<in> set (test_queue (ring_of xs) (slot_of (ring_of xs) k))" if "0 \<le> k" "k < int (length xs)" for k
  proof -
    obtain j where "k = int j" "j < length xs" using \<open>0 \<le> k\<close> \<open>k < int (length xs)\<close> by (metis zero_le_imp_eq_int of_nat_less_iff)
    then show ?thesis using x(2) [of j] by (simp add: slot get)
  qed
  moreover have "length (test_queue (ring_of xs) i) = SLOT_SIZE" for i
    using x(2) [of "nat i"] by (auto simp: ring_of_def)
  ultimately show "ring_inv (ring_of xs)"
    using assms(1) by (simp add: ring_inv_def QUEUE_SIZE_def) (simp add: ring_of_def)
qed

text \<open>A run with deliveries: 500 records are logged, and the next pass of the audit thread sends a batch.\<close>

lemma calm_log_end:
  assumes "ring_inv (queue s)" and "queue_num (queue s) < QUEUE_SIZE" and "NUL \<notin> set x" and "length x < 1000"
  obtains s' where "audit_log_end calm_kenv (Some x) True s = Inr s'" and "ring_inv (queue s')"
    and "items (queue s') = items (queue s) @ [x @ '',node=n'']" and "tee_ctx s' = tee_ctx s" and "kcalls s' = kcalls s"
proof -
  have c: "cstr (x @ lit '',node=n'') = x @ '',node=n''"
    using cstr_append [of "x @ '',node=n''" "[]"] assms(3) by (simp add: lit_def)
  then have f: "fits_slot (x @ lit '',node=n'')" using assms(4) by (simp add: fits_slot_def lit_def SLOT_SIZE_def)
  obtain d where d: "enqueue (x @ lit '',node=n'') (queue s) = Inr (0, put (queue s) d)" "cstr d = cstr (x @ lit '',node=n'')"
      "length d = SLOT_SIZE" "NUL \<in> set d"
    by (rule enqueue_put [OF assms(1) f assms(2)])
  show thesis
    by (rule that [of "s\<lparr>queue := put (queue s) d\<rparr>"])
       (use d c assms in \<open>simp_all add: audit_log_end_def calm_kenv_def ring_inv_put items_put\<close>)
qed

lemma calm_reach_logged:
  assumes "\<forall>x \<in> set xs. NUL \<notin> set x \<and> length x < 1000" and "length xs \<le> 15000"
  shows "\<exists>s. kreach calm_kenv (map (\<lambda>x. x @ '',node=n'') xs) s \<and> items (queue s) = map (\<lambda>x. x @ '',node=n'') xs \<and>
    ring_inv (queue s) \<and> tee_ctx s = Null \<and> kcalls s = []"
  using assms
proof (induction xs rule: rev_induct)
  case Nil
  show ?case using kreach.init [of calm_kenv] by (intro exI [of _ kinit]) (simp add: kinit_def)
next
  case (snoc x xs)
  then obtain s where s: "kreach calm_kenv (map (\<lambda>x. x @ '',node=n'') xs) s" "items (queue s) = map (\<lambda>x. x @ '',node=n'') xs"
      "ring_inv (queue s)" "tee_ctx s = Null" "kcalls s = []"
    by auto
  have n: "queue_num (queue s) < QUEUE_SIZE"
    using length_items [of "queue s"] s(2,3) snoc.prems(2) by (simp add: QUEUE_SIZE_def ring_inv_def)
  obtain s' where s': "audit_log_end calm_kenv (Some x) True s = Inr s'" "ring_inv (queue s')"
      "items (queue s') = items (queue s) @ [x @ '',node=n'']" "tee_ctx s' = tee_ctx s" "kcalls s' = kcalls s"
    by (rule calm_log_end [OF s(3) n]) (use snoc.prems(1) in auto)
  have "recorded (Log_end (Some x) True) s s' = [x @ '',node=n'']" using s'(3) by (simp add: recorded_def)
  with kreach.step [OF s(1) kstep.log_end [OF s'(1)]] s s' show ?case by auto
qed

definition node_records :: "nat \<Rightarrow> string list" where
  "node_records n = replicate n ''a,node=n''"

lemma node_records_Suc: "node_records (Suc n) = node_records n @ [''a,node=n'']"
  by (simp add: node_records_def replicate_append_same)

lemma calm_delivers:
  "\<exists>s. kreach calm_kenv (node_records 500) s \<and> messages (kcalls s) = [log_lines (node_records 499)] \<and> items (queue s) = []"
proof -
  obtain s where s: "kreach calm_kenv (node_records 500) s" "items (queue s) = node_records 500"
      "ring_inv (queue s)" "tee_ctx s = Null" "kcalls s = []"
    using calm_reach_logged [of "replicate 500 ''a''"] by (auto simp: node_records_def)
  have split: "node_records 500 = node_records 499 @ [''a,node=n'']"
    using node_records_Suc [of 499] by simp
  have len: "length (log_lines (node_records n)) = 9 * n" for n
    by (induction n) (simp_all add: node_records_def)
  obtain l where b: "batch (node_records 500) [] None = (log_lines (node_records 499), l, [])"
    using batch_drains [of "[]" "node_records 499" "''a,node=n''" None] len [of 499] unfolding split by auto
  have l: "l = Some (length (log_lines (node_records 499)))"
    using batch_splits [OF b] by (auto simp: node_records_def)
  obtain s1 where s1: "(if tee_ctx s = Null then ta_create_session calm_kenv s else (0, s)) = (0, s1)"
      "tee_ctx s1 = Ptr 0" "queue s1 = queue s" "messages (kcalls s1) = []"
    using s(4,5) by (simp add: ta_create_session_def calm_kenv_def optee_ctx_match_def)
  obtain rc s' where s': "send_eventlog_ta_collect calm_kenv s = Inr (rc, s')" "items (queue s') = []"
      "messages (kcalls s') = [log_lines (node_records 499)]"
    by (rule connected_outcome [OF s1(1,2) calm_stack, of "log_lines (node_records 499)" _ "[]"])
       (use s s1 b l calm_driver in auto)
  have "500 \<le> queue_num (queue s)" using length_items [of "queue s"] s(2) by (simp add: node_records_def)
  then have "kstep calm_kenv s Wakeup s'" using s'(1) by (intro kstep.wakeup) (simp add: kauditd_call_ta_def)
  from kreach.step [OF s(1) this] s' show ?thesis by (auto simp: recorded_def)
qed

text \<open>
  What TA-Collect accepts is what was logged. In every state that loggers and audit
  thread can reach, whatever the driver answers, each accepted message consists of complete
  records, one per line, and all of them together are a subsequence of the records that
  entered the ring: nothing is altered, duplicated, invented or reordered, and the records still waiting
  come after the ones sent.
\<close>

theorem kernel_delivers_subsequence:
  assumes "kreach E hist s" and "stack_ok E"
  shows "\<exists>yss. messages (kcalls s) = map log_lines yss \<and> subseq (concat yss @ items (queue s)) hist"
  using kreach_inv [OF assms] by (auto simp: kinv_def)

definition one_logged :: kstate where
  "one_logged = kinit\<lparr>queue := put ring_init (''a,node=n'' @ NUL # replicate 1015 NUL)\<rparr>"

lemma one_logged_reach: "kreach calm_kenv [''a,node=n''] one_logged"
proof -
  have e: "audit_log_end calm_kenv (Some ''a'') True kinit = Inr one_logged"
    by (simp add: audit_log_end_def calm_kenv_def kinit_def one_logged_def enqueue_def strlen_terminated lit_def
        ring_init_def QUEUE_SIZE_def slot_index_ok_def smod_nonneg strcpy_eq cstr_def SLOT_SIZE_def put_def slot_of_def)
  have i: "items (queue one_logged) = [''a,node=n'']"
    using items_put [OF ring_inv_init, of "''a,node=n'' @ NUL # replicate 1015 NUL"]
      cstr_append [of "''a,node=n''" "replicate 1015 NUL"]
    by (simp add: one_logged_def ring_init_def [THEN arg_cong [of _ _ queue_num]] QUEUE_SIZE_def)
  have "recorded (Log_end (Some ''a'') True) kinit one_logged = [''a,node=n'']"
    using i by (simp add: recorded_def kinit_def)
  with kreach.step [OF kreach.init kstep.log_end [OF e]] show ?thesis by simp
qed

theorem kernel_delivers_subsequence_witness:
  "\<exists>(s :: kstate) yss. messages (kcalls s) = [log_lines (node_records 499)] \<and>
     messages (kcalls s) = map log_lines yss \<and> subseq (concat yss @ items (queue s)) (node_records 500)"
  using calm_delivers kernel_delivers_subsequence [OF _ calm_stack] by blast

text \<open>
  The audit thread's pass is safe in every reachable state: with a terminator somewhere
  in the uninitialised array, it ends without a memory error for every driver, and no
  message handed to TA-Collect is longer than 11024 bytes, so the 12000-byte array is never
  overrun although \<^verbatim>\<open>strcat\<close> checks nothing.
\<close>

theorem kernel_pass_safe:
  assumes "kreach E hist s" and "stack_ok E"
  shows "\<exists>s'. kauditd_call_ta E s = Inr s' \<and> kreach E hist s' \<and>
    (\<forall>m \<in> set (messages (kcalls s')). length m \<le> 11024)"
proof -
  have "sender_ready E s" using kreach_inv [OF assms] by (simp add: kinv_def)
  then obtain s' where s': "kauditd_call_ta E s = Inr s'" by (rule kauditd_outcome)
  then have "kreach E hist s'"
    using kreach.step [OF assms(1) kstep.wakeup [OF s']] by (simp add: recorded_def)
  with s' kreach_inv [OF this assms(2)] show ?thesis by (auto simp: kinv_def)
qed

theorem kernel_pass_safe_witness:
  "\<exists>s'. kauditd_call_ta calm_kenv one_logged = Inr s' \<and> kreach calm_kenv [''a,node=n''] s' \<and>
    (\<forall>m \<in> set (messages (kcalls s')). length m \<le> 11024)"
  by (rule kernel_pass_safe [OF one_logged_reach calm_stack])

text \<open>
  C11: the backlog is worked off. With a driver that serves every call, in every reachable
  state, as many passes of the audit thread as there are records above 499 end without a
  memory error and leave fewer than 500 waiting records, the thread's threshold.
\<close>

theorem kauditd_works_off_backlog:
  assumes "kreach E hist s" and "stack_ok E" and "driver_ok E" and "sessions_open_ok E"
    and "queue_num (queue s) \<le> 499 + int n"
  shows "\<exists>s'. kauditd_passes E n s = Inr s' \<and> queue_num (queue s') < 500"
proof -
  have "sender_ready E s" using kreach_inv [OF assms(1,2)] by (simp add: kinv_def)
  moreover from this have "length (items (queue s)) < 500 + n"
    using assms(5) by (simp add: length_items sender_ready_def)
  ultimately show ?thesis using kauditd_passes_drain [OF assms(3,4)] by blast
qed

lemma calm_sessions: "sessions_open_ok calm_kenv"
  by (simp add: sessions_open_ok_def calm_kenv_def optee_ctx_match_def)

theorem kauditd_works_off_backlog_witness:
  "\<exists>(s :: kstate) s'. queue_num (queue s) = 500 \<and> kauditd_passes calm_kenv 1 s = Inr s' \<and> queue_num (queue s') < 500"
proof -
  obtain s where s: "kreach calm_kenv (node_records 500) s" "items (queue s) = node_records 500"
    using calm_reach_logged [of "replicate 500 ''a''"] by (auto simp: node_records_def)
  have "queue_num (queue s) = 500" using length_items [of "queue s"] s(2) by (simp add: node_records_def)
  with kauditd_works_off_backlog [OF s(1) calm_stack calm_driver calm_sessions, of 1] show ?thesis by auto
qed

text \<open>
  C10: one call of \<^verbatim>\<open>send_eventlog_ta_collect\<close> implements the list specification of a batch:
  with an open session, a driver that serves the message and at least two waiting records,
  it returns 0, hands TA-Collect exactly the text of \<^verbatim>\<open>batch\<close> and leaves exactly the records
  that \<^verbatim>\<open>batch\<close> leaves, with shared memory, contexts and session as before.
\<close>

theorem send_eventlog_refines_batch:
  assumes "stack_ok E" and "ring_inv (queue s)" and "tee_ctx s = Ptr c" and "driver_ok E"
    and "2 \<le> queue_num (queue s)"
  shows "\<exists>s' msg l. send_eventlog_ta_collect E s = Inr (0, s') \<and>
    batch (items (queue s)) [] None = (msg, l, items (queue s')) \<and> l = Some (length msg) \<and>
    messages (kcalls s') = messages (kcalls s) @ [msg] \<and> ring_inv (queue s') \<and> tee_ctx s' = Ptr c \<and>
    shm_held (kcalls s') = shm_held (kcalls s) \<and> contexts_held (kcalls s') = contexts_held (kcalls s)"
proof -
  obtain msg l rest where b: "batch (items (queue s)) [] None = (msg, l, rest)" by (metis prod_cases3)
  have "2 \<le> length (items (queue s))" using assms(5) by (simp add: length_items)
  then have l: "l = Some (length msg)" using batch_splits [OF b] by auto
  show ?thesis
    by (rule connected_outcome [of s E s c, OF _ assms(3,1,2) b [unfolded l]])
       (use assms(3,4) b l in auto)
qed

definition three_ready :: kstate where
  "three_ready = \<lparr>tee_ctx = Ptr 0, sess_session = 7, queue = ring_of [''a'', ''b'', ''c''], kcalls = []\<rparr>"

lemma three_ready_ok:
  "ring_inv (queue three_ready)" "items (queue three_ready) = [''a'', ''b'', ''c'']"
  "tee_ctx three_ready = Ptr 0" "queue_num (queue three_ready) = 3"
  using ring_of_ok [of "[''a'', ''b'', ''c'']"] by (simp_all add: three_ready_def SLOT_SIZE_def) (simp add: ring_of_def)

theorem send_eventlog_refines_batch_witness:
  "\<exists>s' msg l. send_eventlog_ta_collect calm_kenv three_ready = Inr (0, s') \<and>
    batch (items (queue three_ready)) [] None = (msg, l, items (queue s')) \<and> l = Some (length msg) \<and>
    messages (kcalls s') = messages (kcalls three_ready) @ [msg] \<and> ring_inv (queue s') \<and> tee_ctx s' = Ptr 0 \<and>
    shm_held (kcalls s') = shm_held (kcalls three_ready) \<and> contexts_held (kcalls s') = contexts_held (kcalls three_ready)"
  by (rule send_eventlog_refines_batch) (simp_all add: three_ready_ok calm_stack calm_driver)

text \<open>
  C31: draining the ring loses its last record. When the waiting records fit one message,
  the loop takes the last record out of the ring and then leaves because the ring is empty:
  the message holds all records but the last, the ring is empty, and the call reports
  success. (The loop condition compares the result of \<^verbatim>\<open>dequeue\<close> with 1, which it never
  returns.)
\<close>

theorem drain_loses_last_record:
  assumes "stack_ok E" and "ring_inv (queue s)" and "tee_ctx s = Ptr c" and "driver_ok E"
    and "items (queue s) = xs @ [x]" and "xs \<noteq> []" and "length (log_lines xs) \<le> 10000"
  shows "\<exists>s'. send_eventlog_ta_collect E s = Inr (0, s') \<and>
    messages (kcalls s') = messages (kcalls s) @ [log_lines xs] \<and> items (queue s') = []"
proof -
  obtain l where b: "batch (xs @ [x]) [] None = (log_lines xs, l, [])"
    using batch_drains [of "[]" xs x None] assms(7) by auto
  have "2 \<le> length (xs @ [x])" using assms(6) by (cases xs) simp_all
  then have l: "l = Some (length (log_lines xs))" using batch_splits [OF b] by auto
  have bs: "batch (items (queue s)) [] None = (log_lines xs, Some (length (log_lines xs)), [])"
    using b l assms(5) by simp
  show ?thesis
    by (rule connected_outcome [of s E s c, OF _ assms(3,1,2) bs]) (use assms(3,4) in auto)
qed

theorem drain_loses_last_record_witness:
  "\<exists>s'. send_eventlog_ta_collect calm_kenv three_ready = Inr (0, s') \<and>
    messages (kcalls s') = messages (kcalls three_ready) @ [log_lines [''a'', ''b'']] \<and> items (queue s') = []"
  by (rule drain_loses_last_record [where x = "''c''"]) (simp_all add: three_ready_ok calm_stack calm_driver)

text \<open>
  C32: a message that TA-Collect refuses is lost, and the driver's resources with it. The
  records of the batch have left the ring, none of them is delivered, the shared memory is
  not freed, and the context pointer is dropped without closing the context.
\<close>

theorem failed_invoke_loses_batch:
  assumes "stack_ok E" and "ring_inv (queue s)" and "tee_ctx s = Ptr c" and "driver_fails E"
    and "2 \<le> queue_num (queue s)"
  shows "\<exists>s' sent lost. send_eventlog_ta_collect E s = Inr (-1, s') \<and>
    items (queue s) = sent @ lost @ items (queue s') \<and> sent \<noteq> [] \<and>
    messages (kcalls s') = messages (kcalls s) \<and> tee_ctx s' = Null \<and>
    shm_held (kcalls s') = shm_held (kcalls s) + 1 \<and> contexts_held (kcalls s') = contexts_held (kcalls s)"
proof -
  obtain msg l rest where b: "batch (items (queue s)) [] None = (msg, l, rest)" by (metis prod_cases3)
  have "2 \<le> length (items (queue s))" using assms(5) by (simp add: length_items)
  then obtain sent lost where sp: "items (queue s) = sent @ lost @ rest" "sent \<noteq> []" "l = Some (length msg)"
    using batch_splits [OF b] by auto
  show ?thesis
    by (rule connected_outcome [of s E s c, OF _ assms(3,1,2) b [unfolded sp(3)]])
       (use assms(3,4) sp in auto)
qed

theorem failed_invoke_loses_batch_witness:
  "\<exists>s' sent lost. send_eventlog_ta_collect (calm_kenv\<lparr>tee_client_invoke_func := (\<lambda>t c se f d. (0, 0xFFFF000E))\<rparr>)
      three_ready = Inr (-1, s') \<and>
    items (queue three_ready) = sent @ lost @ items (queue s') \<and> sent \<noteq> [] \<and>
    messages (kcalls s') = messages (kcalls three_ready) \<and> tee_ctx s' = Null \<and>
    shm_held (kcalls s') = shm_held (kcalls three_ready) + 1 \<and>
    contexts_held (kcalls s') = contexts_held (kcalls three_ready)"
  by (rule failed_invoke_loses_batch)
     (simp_all add: three_ready_ok stack_ok_def driver_fails_def calm_kenv_def invoke_ok_def
        TEEC_SUCCESS_def TEEC_ERROR_SHORT_BUFFER_def)

text \<open>
  Contexts leak one per failure. In every reachable state the number of driver contexts
  that were opened and not closed is the number of sessions closed after a failed message,
  plus one while a session is in use.
\<close>

theorem kernel_context_leak:
  assumes "kreach E hist s" and "stack_ok E"
  shows "contexts_held (kcalls s) = int (sessions_closed (kcalls s)) + (if tee_ctx s = Null then 0 else 1)"
  using kreach_inv [OF assms] by (simp add: kinv_def)

theorem kernel_context_leak_witness:
  "contexts_held (kcalls one_logged) = int (sessions_closed (kcalls one_logged)) + (if tee_ctx one_logged = Null then 0 else 1)"
  by (rule kernel_context_leak [OF one_logged_reach calm_stack])

text \<open>
  The uninitialised locals matter. If the 12000 bytes on the stack hold no terminator,
  the first \<^verbatim>\<open>strlen\<close> reads past the array; with a single waiting record the loop body never
  runs and an uninitialised length is passed on.
\<close>

theorem send_eventlog_uninitialised:
  assumes "tee_ctx s = Ptr c"
  shows "(NUL \<notin> set (stack_summary_log E (kcalls s)) \<longrightarrow> send_eventlog_ta_collect E s = Inl Out_of_bounds_read) \<and>
    (stack_ok E \<and> ring_inv (queue s) \<and> queue_num (queue s) = 1 \<longrightarrow>
       send_eventlog_ta_collect E s = Inl Uninitialised_read)"
proof (intro conjI impI)
  assume "NUL \<notin> set (stack_summary_log E (kcalls s))"
  then show "send_eventlog_ta_collect E s = Inl Out_of_bounds_read"
    using assms by (simp add: send_eventlog_ta_collect_def strlen_unterminated)
next
  assume ok: "stack_ok E \<and> ring_inv (queue s) \<and> queue_num (queue s) = 1"
  then obtain x where x: "items (queue s) = [x]"
    using length_items [of "queue s"] by (metis One_nat_def length_0_conv length_Suc_conv nat_1)
  obtain n0 b0 where b0: "strlen (stack_summary_log E (kcalls s)) = Inr n0"
      "memset (stack_summary_log E (kcalls s)) NUL n0 = Inr b0" "holds_text b0 []"
    by (rule summary_cleared [of E "kcalls s"]) (use ok in simp_all)
  have "slot_buffer (stack_event_log E (kcalls s))"
    using ok by (simp add: stack_ok_def slot_buffer_def SLOT_SIZE_def)
  then obtain b1 q1 where "gather (stack_event_log E (kcalls s)) b0 None (queue s) = Inr (b1, None, q1)"
    using gather_batch [of "queue s" "stack_event_log E (kcalls s)" b0 "[]" None "[]" None "[]"] ok b0(3) x by auto
  then show "send_eventlog_ta_collect E s = Inl Uninitialised_read"
    using assms b0 by (simp add: send_eventlog_ta_collect_def)
qed

theorem send_eventlog_uninitialised_witness:
  "send_eventlog_ta_collect (calm_kenv\<lparr>stack_summary_log := (\<lambda>t. replicate 12000 (CHR ''x''))\<rparr>) three_ready =
     Inl Out_of_bounds_read"
  using send_eventlog_uninitialised [of three_ready 0 "calm_kenv\<lparr>stack_summary_log := (\<lambda>t. replicate 12000 (CHR ''x''))\<rparr>"]
  by (simp add: three_ready_ok)

end
