(* ===== verification/Audit_Interleaved.thy ===== *)
theory Audit_Interleaved
  imports Audit_Sender
begin

text \<open>
  The audit thread with loggers at work between its steps. \<^verbatim>\<open>Audit_Sender\<close> takes a pass of the
  thread as one step; here the pass of \<^verbatim>\<open>src/qemu/linux/audit_qemu.patch\<close> stops after every call
  of \<^verbatim>\<open>dequeue\<close> and every test of \<^verbatim>\<open>queue_num\<close>, so that a record can be logged while a message is
  being put together. Calls of \<^verbatim>\<open>enqueue\<close> and \<^verbatim>\<open>dequeue\<close> are still whole.
\<close>

section \<open>The pass in steps\<close>

datatype sender_pc =
    S_idle
  | S_loop "char list" "char list" "nat option"
  | S_test int "char list" "char list" "nat option"
  | S_send "char list" "nat option"

text \<open>From the call to the loop: the session, and the cleared message array.\<close>

definition send_begin :: "kenv \<Rightarrow> kstate \<Rightarrow> (sender_pc \<times> kstate) c_result" where
  "send_begin E s =
     (let (rc, s1) = (if tee_ctx s = Null then ta_create_session E s else (0, s)) in
      if rc < 0 then Inr (S_idle, s1\<lparr>tee_ctx := Null\<rparr>)
      else
        let summary_log = stack_summary_log E (kcalls s1) in
        case strlen summary_log of
          Inl e \<Rightarrow> Inl e
        | Inr n \<Rightarrow>
            (case memset summary_log NUL n of
               Inl e \<Rightarrow> Inl e
             | Inr summary0 \<Rightarrow> Inr (S_loop (stack_event_log E (kcalls s1)) summary0 None, s1)))"

text \<open>The test behind the loop's call of \<^verbatim>\<open>dequeue\<close>, and the body of the loop.\<close>

definition send_append :: "int \<Rightarrow> char list \<Rightarrow> char list \<Rightarrow> nat option \<Rightarrow> kstate \<Rightarrow> (sender_pc \<times> kstate) c_result" where
  "send_append rc event_log summary_log log_msg_len s =
     (if rc \<noteq> 1 \<and> 0 < queue_num (queue s) then
        (case strcat summary_log event_log of
           Inl e \<Rightarrow> Inl e
         | Inr summary1 \<Rightarrow>
             (case strcat summary1 (lit [LF]) of
                Inl e \<Rightarrow> Inl e
              | Inr summary2 \<Rightarrow>
                  (case strlen summary2 of
                     Inl e \<Rightarrow> Inl e
                   | Inr n \<Rightarrow>
                       Inr (if 10000 < n then S_send summary2 (Some n) else S_loop event_log summary2 (Some n), s))))
      else Inr (S_send summary_log log_msg_len, s))"

text \<open>The rest of the function, from the call of \<^verbatim>\<open>ta_invoke\<close>.\<close>

definition send_finish :: "kenv \<Rightarrow> char list \<Rightarrow> nat option \<Rightarrow> kstate \<Rightarrow> (sender_pc \<times> kstate) c_result" where
  "send_finish E summary_log log_msg_len s =
     (case log_msg_len of
        None \<Rightarrow> Inl Uninitialised_read
      | Some len \<Rightarrow>
          (case ta_invoke E (tee_ctx s) (sess_session s) 1 summary_log (of_nat len) s of
             Inl e \<Rightarrow> Inl e
           | Inr (rc, s2) \<Rightarrow>
               if rc < 0 then
                 (case tee_ctx s2 of
                    Ptr c \<Rightarrow> Inr (S_idle, (kcall_add (K_close_session c (sess_session s2)) s2)\<lparr>tee_ctx := Null\<rparr>)
                  | _ \<Rightarrow> Inl Null_dereference)
               else Inr (S_idle, s2)))"

definition sender_step :: "kenv \<Rightarrow> sender_pc \<Rightarrow> kstate \<Rightarrow> (sender_pc \<times> kstate) c_result" where
  "sender_step E pc s =
     (case pc of
        S_idle \<Rightarrow> if 500 \<le> queue_num (queue s) then send_begin E s else Inr (S_idle, s)
      | S_loop event_log summary_log log_msg_len \<Rightarrow>
          (case dequeue event_log (queue s) of
             Inl e \<Rightarrow> Inl e
           | Inr (rc, event_log1, q1) \<Rightarrow> Inr (S_test rc event_log1 summary_log log_msg_len, s\<lparr>queue := q1\<rparr>))
      | S_test rc event_log summary_log log_msg_len \<Rightarrow> send_append rc event_log summary_log log_msg_len s
      | S_send summary_log log_msg_len \<Rightarrow> send_finish E summary_log log_msg_len s)"

section \<open>Loggers in between\<close>

text \<open>Reachable states, with the history of the records that entered the ring.\<close>

inductive ireach :: "kenv \<Rightarrow> string list \<Rightarrow> sender_pc \<Rightarrow> kstate \<Rightarrow> bool" for E where
  init: "ireach E [] S_idle kinit"
| log: "ireach E hist pc s \<Longrightarrow> audit_log_end E ab ok s = Inr s' \<Longrightarrow>
    ireach E (hist @ drop (length (items (queue s))) (items (queue s'))) pc s'"
| sender: "ireach E hist pc s \<Longrightarrow> sender_step E pc s = Inr (pc', s') \<Longrightarrow> ireach E hist pc' s'"

section \<open>Invariant\<close>

text \<open>The message under construction: \<^verbatim>\<open>acc\<close> are the records in it.\<close>

definition gathering :: "kstate \<Rightarrow> char list \<Rightarrow> char list \<Rightarrow> nat option \<Rightarrow> string list \<Rightarrow> bool" where
  "gathering s ev sm l acc \<longleftrightarrow> (\<exists>c. tee_ctx s = Ptr c) \<and> slot_buffer ev \<and> holds_text sm (log_lines acc) \<and>
     length (log_lines acc) \<le> 10000 \<and> l = (if acc = [] then None else Some (length (log_lines acc)))"

text \<open>
  What is left of the logged records: some of them in their order, and with a driver that
  serves every message at most \<^verbatim>\<open>n\<close> fewer.
\<close>

definition kept :: "kenv \<Rightarrow> nat \<Rightarrow> string list \<Rightarrow> string list \<Rightarrow> bool" where
  "kept E n xs hist \<longleftrightarrow> subseq xs hist \<and> (driver_ok E \<longrightarrow> length hist \<le> length xs + n)"

lemma kept_extend: "kept E n (xs @ ys) hist \<Longrightarrow> kept E n (xs @ ys @ new) (hist @ new)"
  using list_emb_append_mono [of "(=)" "xs @ ys" hist new new] by (auto simp: kept_def)

lemma kept_drop_mid: "kept E n (xs @ y # ys) hist \<Longrightarrow> kept E (Suc n) (xs @ ys) hist"
  unfolding kept_def by (auto intro: subseq_order.trans [rotated] list_emb_append_mono)

lemma kept_more: "kept E n xs hist \<Longrightarrow> kept E (Suc n) xs hist"
  by (auto simp: kept_def)

text \<open>
  What is in flight at each point of the pass. One record is lost with each message at most. The ring cannot run empty at the call of
  \<^verbatim>\<open>dequeue\<close>, because the audit thread alone takes records and has just seen one.
\<close>

definition in_flight :: "kenv \<Rightarrow> string list list \<Rightarrow> string list \<Rightarrow> sender_pc \<Rightarrow> kstate \<Rightarrow> bool" where
  "in_flight E yss hist pc s \<longleftrightarrow>
     (case pc of
        S_idle \<Rightarrow> kept E (length yss) (concat yss @ items (queue s)) hist
      | S_loop ev sm l \<Rightarrow> (\<exists>acc. gathering s ev sm l acc \<and> items (queue s) \<noteq> [] \<and>
          (acc = [] \<longrightarrow> 2 \<le> length (items (queue s))) \<and> kept E (length yss) (concat yss @ acc @ items (queue s)) hist)
      | S_test rc ev sm l \<Rightarrow> (\<exists>acc. gathering s ev sm l acc \<and> rc = 0 \<and> NUL \<in> set ev \<and> length (cstr ev) < SLOT_SIZE \<and>
          (acc = [] \<longrightarrow> items (queue s) \<noteq> []) \<and> kept E (length yss) (concat yss @ acc @ cstr ev # items (queue s)) hist)
      | S_send sm l \<Rightarrow> (\<exists>acc. (\<exists>c. tee_ctx s = Ptr c) \<and> acc \<noteq> [] \<and> holds_text sm (log_lines acc) \<and>
          length (log_lines acc) \<le> 11024 \<and> l = Some (length (log_lines acc)) \<and>
          kept E (Suc (length yss)) (concat yss @ acc @ items (queue s)) hist))"

definition iinv :: "kenv \<Rightarrow> string list \<Rightarrow> sender_pc \<Rightarrow> kstate \<Rightarrow> bool" where
  "iinv E hist pc s \<longleftrightarrow> sender_ready E s \<and> handed_ok E (kcalls s) \<and>
     (\<forall>m \<in> set (messages (kcalls s)). length m \<le> 11024) \<and>
     (\<exists>yss. messages (kcalls s) = map log_lines yss \<and> in_flight E yss hist pc s)"

text \<open>A logger adds at the end, wherever the audit thread is.\<close>

lemma in_flight_log:
  assumes "in_flight E yss hist pc s" and "items (queue s') = items (queue s) @ new" and "tee_ctx s' = tee_ctx s"
  shows "in_flight E yss (hist @ new) pc s'"
proof -
  have g: "gathering s' ev sm l acc = gathering s ev sm l acc" for ev sm l acc
    using assms(3) by (simp add: gathering_def)
  have e: "kept E n (xs @ items (queue s')) (hist @ new)" if "kept E n (xs @ items (queue s)) hist" for n xs
    using kept_extend [OF that, of new] assms(2) by simp
  show ?thesis
  proof (cases pc)
    case S_idle
    then show ?thesis using assms(1) e by (simp add: in_flight_def)
  next
    case (S_loop ev sm l)
    then obtain acc where "gathering s ev sm l acc" "items (queue s) \<noteq> []" "acc = [] \<longrightarrow> 2 \<le> length (items (queue s))"
        "kept E (length yss) (concat yss @ acc @ items (queue s)) hist"
      using assms(1) by (auto simp: in_flight_def)
    with S_loop show ?thesis
      using e [of _ "concat yss @ acc"] assms(2) by (auto simp: in_flight_def g intro!: exI [of _ acc])
  next
    case (S_test rc ev sm l)
    then obtain acc where "gathering s ev sm l acc" "rc = 0" "NUL \<in> set ev" "length (cstr ev) < SLOT_SIZE"
        "acc = [] \<longrightarrow> items (queue s) \<noteq> []" "kept E (length yss) (concat yss @ acc @ cstr ev # items (queue s)) hist"
      using assms(1) by (auto simp: in_flight_def)
    with S_test show ?thesis
      using e [of _ "concat yss @ acc @ [cstr ev]"] assms(2) by (auto simp: in_flight_def g intro!: exI [of _ acc])
  next
    case (S_send sm l)
    then obtain acc where "\<exists>c. tee_ctx s = Ptr c" "acc \<noteq> []" "holds_text sm (log_lines acc)"
        "length (log_lines acc) \<le> 11024" "l = Some (length (log_lines acc))" "kept E (Suc (length yss)) (concat yss @ acc @ items (queue s)) hist"
      using assms(1) by (auto simp: in_flight_def)
    with S_send show ?thesis
      using e [of _ "concat yss @ acc"] assms(2,3) by (auto simp: in_flight_def intro!: exI [of _ acc])
  qed
qed

lemma iinv_log:
  assumes "iinv E hist pc s" and "audit_log_end E ab ok s = Inr s'"
  shows "iinv E (hist @ drop (length (items (queue s))) (items (queue s'))) pc s'"
proof -
  have "ring_inv (queue s)" using assms(1) by (simp add: iinv_def sender_ready_def)
  from audit_log_end_outcome [OF assms(2) this] obtain new where
      n: "ring_inv (queue s')" "kcalls s' = kcalls s" "tee_ctx s' = tee_ctx s" "items (queue s') = items (queue s) @ new"
    by blast
  from assms(1) n show ?thesis
    using in_flight_log [OF _ n(4,3)] by (auto simp: iinv_def sender_ready_def)
qed

section \<open>Every step of the pass is safe\<close>

lemma begin_step:
  assumes "iinv E hist S_idle s"
  obtains pc' s' where "sender_step E S_idle s = Inr (pc', s')" and "iinv E hist pc' s'"
proof (cases "500 \<le> queue_num (queue s)")
  case True
  have ready: "sender_ready E s" using assms by (simp add: iinv_def)
  obtain yss where yss: "messages (kcalls s) = map log_lines yss" "kept E (length yss) (concat yss @ items (queue s)) hist"
    using assms by (auto simp: iinv_def in_flight_def)
  obtain rc s1 where s1: "(if tee_ctx s = Null then ta_create_session E s else (0, s)) = (rc, s1)" "queue s1 = queue s"
      "messages (kcalls s1) = messages (kcalls s)"
      "rc = 0 \<and> (\<exists>c. tee_ctx s1 = Ptr c) \<and>
         contexts_held (kcalls s1) = contexts_held (kcalls s) + (if tee_ctx s = Null then 1 else 0) \<or>
       rc = -1 \<and> tee_ctx s = Null \<and> contexts_held (kcalls s1) = contexts_held (kcalls s)"
    by (rule connect_outcome [OF ready])
  have h: "handed_ok E (kcalls s1)"
    using assms s1(1) ta_create_session_handed by (auto simp: iinv_def handed_ok_def split: if_splits)
  have st: "stack_ok E" "ring_inv (queue s)" using ready by (simp_all add: sender_ready_def)
  show thesis
  proof (cases "rc = 0")
    case False
    then have "sender_step E S_idle s = Inr (S_idle, s1\<lparr>tee_ctx := Null\<rparr>)"
      using True s1 by (auto simp: sender_step_def send_begin_def)
    moreover have "iinv E hist S_idle (s1\<lparr>tee_ctx := Null\<rparr>)"
      using assms s1(2,3) h st by (auto simp: iinv_def in_flight_def sender_ready_def)
    ultimately show thesis by (rule that)
  next
    case rc: True
    then obtain c where c: "tee_ctx s1 = Ptr c" using s1(4) by auto
    obtain n b where b: "strlen (stack_summary_log E (kcalls s1)) = Inr n"
        "memset (stack_summary_log E (kcalls s1)) NUL n = Inr b" "holds_text b []"
      by (rule summary_cleared [OF st(1)])
    let ?ev = "stack_event_log E (kcalls s1)"
    have ev: "slot_buffer ?ev" using st(1) by (simp add: stack_ok_def slot_buffer_def SLOT_SIZE_def)
    have "sender_step E S_idle s = Inr (S_loop ?ev b None, s1)"
      using True s1(1) rc b(1,2) by (simp add: sender_step_def send_begin_def)
    moreover have "2 \<le> length (items (queue s))" using True by (simp add: length_items)
    then have "in_flight E yss hist (S_loop ?ev b None) s1"
      using yss(2) c ev b(3) s1(2) by (auto simp: in_flight_def gathering_def intro!: exI [of _ "[]"])
    then have "iinv E hist (S_loop ?ev b None) s1"
      using assms s1(2,3) h st c yss(1) by (auto simp: iinv_def sender_ready_def)
    ultimately show thesis by (rule that)
  qed
qed (use assms that in \<open>simp add: sender_step_def\<close>)

lemma loop_step:
  assumes "iinv E hist (S_loop ev sm l) s"
  obtains pc' s' where "sender_step E (S_loop ev sm l) s = Inr (pc', s')" and "iinv E hist pc' s'"
proof -
  have ready: "sender_ready E s" using assms by (simp add: iinv_def)
  then have inv: "ring_inv (queue s)" by (simp add: sender_ready_def)
  obtain yss acc where f: "messages (kcalls s) = map log_lines yss" "gathering s ev sm l acc" "items (queue s) \<noteq> []"
      "acc = [] \<longrightarrow> 2 \<le> length (items (queue s))" "kept E (length yss) (concat yss @ acc @ items (queue s)) hist"
    using assms by (auto simp: iinv_def in_flight_def)
  have n: "0 < queue_num (queue s)" using f(3) length_items [of "queue s"] by (cases "items (queue s)") auto
  have "slot_buffer ev" using f(2) by (simp add: gathering_def)
  then obtain ev1 where d: "dequeue ev (queue s) = Inr (0, ev1, dropped (queue s))"
      "cstr ev1 = cstr (test_queue (queue s) (queue_head (queue s)))" "slot_buffer ev1" "NUL \<in> set ev1"
    by (rule dequeue_drop [OF inv _ n])
  have it: "items (queue s) = cstr ev1 # items (dropped (queue s))" using items_Cons [OF inv n] d(2) by simp
  have short: "length (cstr ev1) < SLOT_SIZE" using items_short [OF inv, of "cstr ev1"] it by simp
  let ?s = "s\<lparr>queue := dropped (queue s)\<rparr>"
  have "sender_step E (S_loop ev sm l) s = Inr (S_test 0 ev1 sm l, ?s)" by (simp add: sender_step_def d(1))
  moreover have "in_flight E yss hist (S_test 0 ev1 sm l) ?s"
    using f(2,4,5) it short d(3,4) by (auto simp: in_flight_def gathering_def intro!: exI [of _ acc])
  then have "iinv E hist (S_test 0 ev1 sm l) ?s"
    using assms f(1) ring_inv_dropped [OF inv n] by (auto simp: iinv_def sender_ready_def)
  ultimately show thesis by (rule that)
qed

lemma log_lines_snoc: "log_lines (acc @ [x]) = log_lines acc @ x @ [LF]"
  by simp

lemma test_step:
  assumes "iinv E hist (S_test rc ev sm l) s"
  obtains pc' s' where "sender_step E (S_test rc ev sm l) s = Inr (pc', s')" and "iinv E hist pc' s'"
proof -
  obtain yss acc where f: "messages (kcalls s) = map log_lines yss" "gathering s ev sm l acc" "rc = 0" "NUL \<in> set ev"
      "length (cstr ev) < SLOT_SIZE" "acc = [] \<longrightarrow> items (queue s) \<noteq> []"
      "kept E (length yss) (concat yss @ acc @ cstr ev # items (queue s)) hist"
    using assms by (auto simp: iinv_def in_flight_def)
  have g: "holds_text sm (log_lines acc)" "length (log_lines acc) \<le> 10000" "slot_buffer ev"
    "l = (if acc = [] then None else Some (length (log_lines acc)))" "\<exists>c. tee_ctx s = Ptr c"
    using f(2) by (simp_all add: gathering_def)
  show thesis
  proof (cases "0 < queue_num (queue s)")
    case False
    then have "items (queue s) = []" using length_items [of "queue s"] by simp
    then have "acc \<noteq> []" using f(6) by blast
    moreover have "sender_step E (S_test rc ev sm l) s = Inr (S_send sm l, s)"
      using False by (simp add: sender_step_def send_append_def)
    moreover have "kept E (Suc (length yss)) (concat yss @ acc @ items (queue s)) hist"
      using kept_drop_mid [of E _ "concat yss @ acc" "cstr ev"] f(7) by simp
    ultimately show thesis
      using assms f(1) g by (intro that [of "S_send sm l" s]) (auto simp: iinv_def in_flight_def intro!: exI [of _ yss] exI [of _ acc])
  next
    case True
    let ?acc = "acc @ [cstr ev]"
    obtain b1 b2 where b: "strcat sm ev = Inr b1" "strcat b1 (lit [LF]) = Inr b2"
        "strlen b2 = Inr (length (log_lines acc @ cstr ev @ [LF]))" "holds_text b2 (log_lines acc @ cstr ev @ [LF])"
      by (rule append_line [OF g(1,2) f(4,5)])
    let ?n = "length (log_lines ?acc)"
    let ?pc = "if 10000 < ?n then S_send b2 (Some ?n) else S_loop ev b2 (Some ?n)"
    have st: "sender_step E (S_test rc ev sm l) s = Inr (?pc, s)"
      using True f(3) b by (simp add: sender_step_def send_append_def)
    have "?n \<le> 11024" using g(2) f(5) by (simp add: SLOT_SIZE_def)
    moreover have "items (queue s) \<noteq> []" using True length_items [of "queue s"] by auto
    ultimately have "in_flight E yss hist ?pc s"
      using f(7) kept_more [OF f(7)] g(3,5) b(4) by (auto simp: in_flight_def gathering_def intro!: exI [of _ ?acc])
    then have "iinv E hist ?pc s" using assms f(1) by (auto simp: iinv_def)
    with st show thesis by (rule that)
  qed
qed

lemma send_step:
  assumes "iinv E hist (S_send sm l) s"
  obtains pc' s' where "sender_step E (S_send sm l) s = Inr (pc', s')" and "iinv E hist pc' s'"
proof -
  have ready: "sender_ready E s" "handed_ok E (kcalls s)" using assms by (simp_all add: iinv_def)
  obtain yss acc c where f: "messages (kcalls s) = map log_lines yss" "tee_ctx s = Ptr c" "holds_text sm (log_lines acc)"
      "length (log_lines acc) \<le> 11024" "l = Some (length (log_lines acc))" "kept E (Suc (length yss)) (concat yss @ acc @ items (queue s)) hist"
    using assms by (auto simp: iinv_def in_flight_def)
  let ?n = "length (log_lines acc)"
  have sm: "length sm = 12000" "take ?n sm = log_lines acc"
    using f(3) cstr_prefix [of sm] by (auto simp: holds_text_def)
  have un: "unat (of_nat ?n :: u64) = ?n" using f(4) by (simp add: unat_of_nat take_bit_nat_eq_self)
  then have le: "unat (of_nat ?n :: u64) \<le> length sm" using f(4) sm(1) by simp
  obtain rc s2 where r: "ta_invoke E (Ptr c) (sess_session s) 1 sm (of_nat ?n) s = Inr (rc, s2)"
    by (rule ta_invoke_returns [OF le])
  note i = ta_invoke_outcome [OF r, unfolded un sm(2)]
  have h: "handed_ok E (kcalls s2)" by (rule ta_invoke_handed [OF r ready(2)]) (simp add: sm(1))
  have sub: "kept E (length (yss @ [acc])) (concat (yss @ [acc]) @ items (queue s)) hist"
      "rc < 0 \<Longrightarrow> kept E (length yss) (concat yss @ items (queue s)) hist"
    using f(6) subseq_take_batch(2) [of "concat yss" acc "[]" "items (queue s)" hist] ta_invoke_driver(1) [OF r]
    by (auto simp: kept_def)
  have short: "\<forall>m \<in> set (messages (kcalls s)). length m \<le> 11024" using assms by (simp add: iinv_def)
  show thesis
  proof (cases "rc < 0")
    case False
    then have "sender_step E (S_send sm l) s = Inr (S_idle, s2)" using r f(2,5) by (simp add: sender_step_def send_finish_def)
    moreover have "iinv E hist S_idle s2"
      using False i f(1,2,4) h sub(1) short ready(1)
      by (auto simp: iinv_def in_flight_def sender_ready_def intro!: exI [of _ "yss @ [acc]"])
    ultimately show thesis by (rule that)
  next
    case True
    let ?s = "(kcall_add (K_close_session c (sess_session s2)) s2)\<lparr>tee_ctx := Null\<rparr>"
    have "sender_step E (S_send sm l) s = Inr (S_idle, ?s)"
      using True r f(2,5) i(2) by (simp add: sender_step_def send_finish_def)
    moreover have "iinv E hist S_idle ?s"
      using True i f(1) h sub(2) short ready(1)
      by (auto simp: iinv_def in_flight_def sender_ready_def handed_ok_def intro!: exI [of _ yss])
    ultimately show thesis by (rule that)
  qed
qed

lemma sender_step_safe:
  assumes "iinv E hist pc s"
  obtains pc' s' where "sender_step E pc s = Inr (pc', s')" and "iinv E hist pc' s'"
proof (cases pc)
  case S_idle
  with assms that show thesis using begin_step by blast
next
  case (S_loop ev sm l)
  with assms that show thesis using loop_step by blast
next
  case (S_test rc ev sm l)
  with assms that show thesis using test_step by blast
next
  case (S_send sm l)
  with assms that show thesis using send_step by blast
qed

lemma ireach_inv:
  assumes "ireach E hist pc s" and "stack_ok E"
  shows "iinv E hist pc s"
  using assms(1)
proof induction
  case init
  show ?case using assms(2)
    by (auto simp: iinv_def in_flight_def kept_def sender_ready_def kinit_def handed_ok_def intro: exI [of _ "[]"])
next
  case (log hist pc s ab ok s')
  then show ?case using iinv_log by blast
next
  case (sender hist pc s pc' s')
  then show ?case using sender_step_safe [of E hist pc s] by fastforce
qed

section \<open>Below the threshold\<close>

text \<open>As long as fewer than 500 records have been logged, the audit thread makes no call at all.\<close>

lemma below_threshold:
  assumes "ireach E hist pc s" and "stack_ok E" and "length hist < 500"
  shows "pc = S_idle \<and> kcalls s = []"
  using assms(1,3)
proof induction
  case init
  show ?case by (simp add: kinit_def)
next
  case (log hist pc s ab ok s')
  then show ?case by (auto simp: audit_log_end_def split: option.splits if_splits sum.splits)
next
  case (sender hist pc s pc' s')
  then have idle: "pc = S_idle" "kcalls s = []" by simp_all
  from ireach_inv [OF sender.hyps(1) assms(2)] have "length (items (queue s)) \<le> length hist"
    by (auto simp: iinv_def idle in_flight_def kept_def dest!: list_emb_length)
  then have "\<not> 500 \<le> queue_num (queue s)" using sender.prems by (simp add: length_items)
  with sender.hyps(2) idle show ?case by (simp add: sender_step_def)
qed

section \<open>The undisturbed pass\<close>

fun sender_run :: "kenv \<Rightarrow> nat \<Rightarrow> sender_pc \<Rightarrow> kstate \<Rightarrow> (sender_pc \<times> kstate) c_result" where
  "sender_run E 0 pc s = Inr (pc, s)"
| "sender_run E (Suc n) pc s = (case sender_step E pc s of Inl e \<Rightarrow> Inl e | Inr (pc', s') \<Rightarrow> sender_run E n pc' s')"

lemma sender_run_add:
  "sender_run E (m + n) pc s = (case sender_run E m pc s of Inl e \<Rightarrow> Inl e | Inr (pc', s') \<Rightarrow> sender_run E n pc' s')"
  by (induction m arbitrary: pc s) (auto split: sum.splits)

text \<open>The loop in steps is the loop of \<^verbatim>\<open>gather\<close>, errors included.\<close>

lemma loop_is_gather:
  "\<exists>n. sender_run E n (S_loop ev sm l) s =
    (case gather ev sm l (queue s) of Inl e \<Rightarrow> Inl e | Inr (sm', l', q') \<Rightarrow> Inr (S_send sm' l', s\<lparr>queue := q'\<rparr>))"
proof (induction ev sm l "queue s" arbitrary: s rule: gather.induct)
  case (1 ev sm l s)
  show ?case
  proof (cases "dequeue ev (queue s)")
    case (Inl e)
    then show ?thesis by (intro exI [of _ 1]) (simp add: sender_step_def gather.simps [of ev sm l])
  next
    case (Inr x)
    then obtain rc ev1 q1 where d: "dequeue ev (queue s) = Inr (rc, ev1, q1)" by (cases x) auto
    let ?s = "s\<lparr>queue := q1\<rparr>"
    have one: "sender_run E (Suc n) (S_loop ev sm l) s = sender_run E n (S_test rc ev1 sm l) ?s" for n
      by (simp add: sender_step_def d)
    show ?thesis
    proof (cases "rc \<noteq> 1 \<and> 0 < queue_num q1")
      case False
      then have "send_append rc ev1 sm l ?s = Inr (S_send sm l, ?s)" "gather ev sm l (queue s) = Inr (sm, l, q1)"
        using d by (auto simp: send_append_def gather.simps [of ev sm l])
      then show ?thesis by (intro exI [of _ 2]) (simp add: numeral_2_eq_2 one sender_step_def d)
    next
      case True
      show ?thesis
      proof (cases "\<exists>sm1 sm2 n. strcat sm ev1 = Inr sm1 \<and> strcat sm1 (lit [LF]) = Inr sm2 \<and> strlen sm2 = Inr n \<and> n \<le> 10000")
        case False
        with True d show ?thesis
          by (intro exI [of _ 2])
             (auto simp: numeral_2_eq_2 sender_step_def send_append_def gather.simps [of ev sm l] split: sum.splits)
      next
        case body: True
        then obtain sm1 sm2 n where b: "strcat sm ev1 = Inr sm1" "strcat sm1 (lit [LF]) = Inr sm2" "strlen sm2 = Inr n" "n \<le> 10000"
          by blast
        have "\<exists>m. sender_run E m (S_loop ev1 sm2 (Some n)) ?s =
            (case gather ev1 sm2 (Some n) q1 of Inl e \<Rightarrow> Inl e | Inr (sm', l', q') \<Rightarrow> Inr (S_send sm' l', ?s\<lparr>queue := q'\<rparr>))"
          using "1.hyps" [of "(rc, ev1, q1)" rc "(ev1, q1)" ev1 ?s sm1 sm2 n] d True b by simp
        then obtain m where m: "sender_run E m (S_loop ev1 sm2 (Some n)) ?s =
            (case gather ev1 sm2 (Some n) q1 of Inl e \<Rightarrow> Inl e | Inr (sm', l', q') \<Rightarrow> Inr (S_send sm' l', ?s\<lparr>queue := q'\<rparr>))"
          by blast
        have "gather ev sm l (queue s) = gather ev1 sm2 (Some n) q1"
          using d True b by (simp add: gather.simps [of ev sm l])
        moreover have "sender_run E (Suc (Suc m)) (S_loop ev sm l) s = sender_run E m (S_loop ev1 sm2 (Some n)) ?s"
          using True b by (simp add: sender_step_def d send_append_def)
        ultimately show ?thesis using m by (intro exI [of _ "Suc (Suc m)"]) (simp split: sum.splits prod.splits)
      qed
    qed
  qed
qed

text \<open>The atomic pass of \<^verbatim>\<open>Audit_Sender\<close>, up to the loop, and after it.\<close>

lemma kauditd_call_ta_steps:
  "kauditd_call_ta E s =
    (case sender_step E S_idle s of
       Inl e \<Rightarrow> Inl e
     | Inr (S_loop ev sm l, s1) \<Rightarrow>
         (case gather ev sm l (queue s1) of
            Inl e \<Rightarrow> Inl e
          | Inr (sm', l', q') \<Rightarrow> (case send_finish E sm' l' (s1\<lparr>queue := q'\<rparr>) of Inl e \<Rightarrow> Inl e | Inr (_, s2) \<Rightarrow> Inr s2))
     | Inr (_, s1) \<Rightarrow> Inr s1)"
  by (simp add: kauditd_call_ta_def sender_step_def send_begin_def send_eventlog_ta_collect_def send_finish_def Let_def
      split: prod.split sum.split option.split kptr.split)

lemma send_finish_idle: "send_finish E sm l s = Inr (pc, s') \<Longrightarrow> pc = S_idle"
  by (auto simp: send_finish_def split: option.splits sum.splits prod.splits if_splits kptr.splits)

lemma begin_shape:
  "sender_step E S_idle s = Inr (pc, s1) \<Longrightarrow> pc = S_idle \<or> (\<exists>ev sm l. pc = S_loop ev sm l)"
  by (auto simp: sender_step_def send_begin_def Let_def split: if_splits sum.splits prod.splits)

lemma undisturbed:
  "\<exists>n > 0. sender_run E n S_idle s = (case kauditd_call_ta E s of Inl e \<Rightarrow> Inl e | Inr s' \<Rightarrow> Inr (S_idle, s'))"
proof (cases "sender_step E S_idle s")
  case (Inl e)
  then show ?thesis by (intro exI [of _ 1]) (simp add: kauditd_call_ta_steps)
next
  case (Inr x)
  then obtain pc s1 where b: "sender_step E S_idle s = Inr (pc, s1)" by (cases x) auto
  from begin_shape [OF b] show ?thesis
  proof
    assume "pc = S_idle"
    with b show ?thesis by (intro exI [of _ 1]) (simp add: kauditd_call_ta_steps)
  next
    assume "\<exists>ev sm l. pc = S_loop ev sm l"
    then obtain ev sm l where pc: "pc = S_loop ev sm l" by blast
    obtain n where n: "sender_run E n (S_loop ev sm l) s1 =
        (case gather ev sm l (queue s1) of Inl e \<Rightarrow> Inl e | Inr (sm', l', q') \<Rightarrow> Inr (S_send sm' l', s1\<lparr>queue := q'\<rparr>))"
      using loop_is_gather by blast
    have "sender_run E (Suc n + 1) S_idle s =
        (case kauditd_call_ta E s of Inl e \<Rightarrow> Inl e | Inr s' \<Rightarrow> Inr (S_idle, s'))"
      unfolding sender_run_add kauditd_call_ta_steps
      using b pc n by (auto simp: sender_step_def [of E "S_send _ _"] dest: send_finish_idle split: sum.splits prod.splits)
    then show ?thesis by (intro exI [of _ "Suc n + 1"]) simp
  qed
qed

lemma ireach_run:
  "sender_run E n pc s = Inr (pc', s') \<Longrightarrow> ireach E hist pc s \<Longrightarrow> ireach E hist pc' s'"
  by (induction n arbitrary: pc s) (auto intro: ireach.sender split: sum.splits prod.splits)

text \<open>What the coarse transition system of \<^verbatim>\<open>Audit_Sender\<close> reaches, this one reaches.\<close>

lemma kreach_ireach: "kreach E hist s \<Longrightarrow> ireach E hist S_idle s"
proof (induction rule: kreach.induct)
  case init
  show ?case by (rule ireach.init)
next
  case (step hist s l s')
  from step.hyps(2) show ?case
  proof cases
    case (log_end ab ok)
    with ireach.log [OF step.IH] show ?thesis by (simp add: recorded_def)
  next
    case wakeup
    then obtain n where "sender_run E n S_idle s = Inr (S_idle, s')" using undisturbed [of E s] by auto
    with ireach_run [OF this step.IH] wakeup show ?thesis by (simp add: recorded_def)
  qed
qed

section \<open>The pass ends\<close>

text \<open>A pass from some point on, \<^verbatim>\<open>n\<close> steps of the audit thread and any number of loggers in between.\<close>

inductive ipass :: "kenv \<Rightarrow> nat \<Rightarrow> sender_pc \<Rightarrow> kstate \<Rightarrow> sender_pc \<Rightarrow> kstate \<Rightarrow> bool" for E where
  here: "ipass E 0 pc s pc s"
| log: "ipass E n pc s pc1 s1 \<Longrightarrow> audit_log_end E ab ok s1 = Inr s2 \<Longrightarrow> ipass E n pc s pc1 s2"
| sender: "ipass E n pc s pc1 s1 \<Longrightarrow> pc1 \<noteq> S_idle \<Longrightarrow> sender_step E pc1 s1 = Inr (pc2, s2) \<Longrightarrow> ipass E (Suc n) pc s pc2 s2"

text \<open>The steps left: every round of the loop makes the text longer, and it stays within 10000 characters.\<close>

fun steps_left :: "sender_pc \<Rightarrow> nat" where
  "steps_left S_idle = 0"
| "steps_left (S_loop ev sm l) = 2 * (10000 - (case l of None \<Rightarrow> 0 | Some n \<Rightarrow> n)) + 3"
| "steps_left (S_test rc ev sm l) = 2 * (10000 - (case l of None \<Rightarrow> 0 | Some n \<Rightarrow> n)) + 2"
| "steps_left (S_send sm l) = 1"

lemma steps_left_bound: "steps_left pc \<le> 20003"
  by (cases pc) (auto split: option.splits)

lemma append_shortens:
  assumes "iinv E hist (S_test rc ev sm l) s" and "send_append rc ev sm l s = Inr (pc', s')"
  shows "steps_left pc' < steps_left (S_test rc ev sm l)"
proof -
  obtain acc where f: "gathering s ev sm l acc" "NUL \<in> set ev" "length (cstr ev) < SLOT_SIZE"
    using assms(1) by (auto simp: iinv_def in_flight_def)
  have g: "holds_text sm (log_lines acc)" "length (log_lines acc) \<le> 10000"
      "(case l of None \<Rightarrow> 0 | Some n \<Rightarrow> n) = length (log_lines acc)"
    using f(1) by (auto simp: gathering_def)
  obtain b1 b2 where b: "strcat sm ev = Inr b1" "strcat b1 (lit [LF]) = Inr b2"
      "strlen b2 = Inr (length (log_lines acc @ cstr ev @ [LF]))"
    by (rule append_line [OF g(1,2) f(2,3)])
  then show ?thesis using assms(2) g(2,3) by (auto simp: send_append_def split: if_splits)
qed

lemma sender_step_shortens:
  assumes "iinv E hist pc s" and "pc \<noteq> S_idle" and "sender_step E pc s = Inr (pc', s')"
  shows "steps_left pc' < steps_left pc"
proof (cases pc)
  case (S_loop ev sm l)
  with assms(3) show ?thesis by (auto simp: sender_step_def split: sum.splits prod.splits)
next
  case (S_test rc ev sm l)
  with assms append_shortens show ?thesis by (simp add: sender_step_def)
next
  case (S_send sm l)
  with assms(3) show ?thesis by (auto simp: sender_step_def dest: send_finish_idle)
qed (use assms(2) in simp)

lemma ipass_steps:
  assumes "ipass E n pc s pc' s'" and "iinv E hist pc s"
  shows "(\<exists>hist'. iinv E hist' pc' s') \<and> n + steps_left pc' \<le> steps_left pc"
  using assms
proof (induction rule: ipass.induct)
  case (log n pc s pc1 s1 ab ok s2)
  then show ?case using iinv_log by blast
next
  case (sender n pc s pc1 s1 pc2 s2)
  then obtain hist' where h: "iinv E hist' pc1 s1" "n + steps_left pc1 \<le> steps_left pc" by blast
  have "steps_left pc2 < steps_left pc1" by (rule sender_step_shortens [OF h(1) sender.hyps(2,3)])
  moreover have "iinv E hist' pc2 s2" using sender_step_safe [OF h(1)] sender.hyps(3) by (metis Pair_inject sum.inject(2))
  ultimately show ?case using h(2) by auto
qed auto

section \<open>Properties\<close>

lemma in_flight_delivered:
  assumes "in_flight E yss hist pc s"
  shows "subseq (concat yss @ items (queue s)) hist"
proof (cases pc)
  case S_idle
  with assms show ?thesis by (simp add: in_flight_def kept_def)
next
  case (S_loop ev sm l)
  with assms obtain acc where "subseq (concat yss @ acc @ [] @ items (queue s)) hist" by (auto simp: in_flight_def kept_def)
  then show ?thesis by (rule subseq_take_batch(2))
next
  case (S_test rc ev sm l)
  with assms obtain acc where "subseq (concat yss @ acc @ [cstr ev] @ items (queue s)) hist" by (auto simp: in_flight_def kept_def)
  then show ?thesis by (rule subseq_take_batch(2))
next
  case (S_send sm l)
  with assms obtain acc where "subseq (concat yss @ acc @ [] @ items (queue s)) hist" by (auto simp: in_flight_def kept_def)
  then show ?thesis by (rule subseq_take_batch(2))
qed

text \<open>
  C4: what TA-Collect accepts is what was logged, also when records are logged while a message
  is being put together. In every state that loggers and audit thread can reach, at every point
  of a pass and whatever the driver answers, each accepted message consists of complete
  records, one per line, and all of them together are a subsequence of the records that
  entered the ring: nothing is altered, duplicated, invented or reordered, and the records
  still waiting come after the ones sent.
\<close>

theorem interleaved_delivery:
  assumes "ireach E hist pc s" and "stack_ok E"
  shows "\<exists>yss. messages (kcalls s) = map log_lines yss \<and> subseq (concat yss @ items (queue s)) hist"
  using ireach_inv [OF assms] in_flight_delivered by (fastforce simp: iinv_def)

theorem interleaved_delivery_witness:
  "\<exists>(s :: kstate) yss. messages (kcalls s) = [log_lines (node_records 499)] \<and>
     messages (kcalls s) = map log_lines yss \<and> subseq (concat yss @ items (queue s)) (node_records 500)"
  using calm_delivers interleaved_delivery [OF kreach_ireach calm_stack] by blast


text \<open>The state at the head of the loop, with 500 records waiting.\<close>

lemma calm_begins:
  "\<exists>s ev sm. ireach calm_kenv (node_records 500) (S_loop ev sm None) s"
proof -
  obtain s where s: "kreach calm_kenv (node_records 500) s" "items (queue s) = node_records 500" "tee_ctx s = Null" "kcalls s = []"
    using calm_reach_logged [of "replicate 500 ''a''"] by (auto simp: node_records_def)
  have i: "iinv calm_kenv (node_records 500) S_idle s" by (rule ireach_inv [OF kreach_ireach [OF s(1)] calm_stack])
  have q: "500 \<le> queue_num (queue s)" using length_items [of "queue s"] s(2) by (simp add: node_records_def)
  obtain s1 where c: "ta_create_session calm_kenv s = (0, s1)"
    using s(3,4) by (simp add: ta_create_session_def calm_kenv_def optee_ctx_match_def)
  obtain n b where b: "strlen (stack_summary_log calm_kenv (kcalls s1)) = Inr n"
      "memset (stack_summary_log calm_kenv (kcalls s1)) NUL n = Inr b"
    by (rule summary_cleared [OF calm_stack])
  have "sender_step calm_kenv S_idle s = Inr (S_loop (stack_event_log calm_kenv (kcalls s1)) b None, s1)"
    using q c b s(3) by (simp add: sender_step_def send_begin_def)
  from ireach.sender [OF kreach_ireach [OF s(1)] this] show ?thesis by blast
qed


text \<open>
  C8: a pass of the audit thread ends, however many records are logged while it runs: it takes
  at most 20003 more of the thread's steps from any point, because every round of the loop
  makes the message longer and the loop is left above 10000 characters.
\<close>

theorem interleaved_pass_ends:
  assumes "ireach E hist pc s" and "stack_ok E" and "ipass E n pc s pc' s'"
  shows "n \<le> 20003"
  using ipass_steps [OF assms(3) ireach_inv [OF assms(1,2)]] steps_left_bound [of pc] by linarith

theorem interleaved_pass_ends_witness:
  "\<exists>s ev sm pc' s'. ipass calm_kenv 1 (S_loop ev sm None) s pc' s' \<and> (1 :: nat) \<le> 20003"
proof -
  obtain s ev sm where s: "ireach calm_kenv (node_records 500) (S_loop ev sm None) s" using calm_begins by blast
  obtain pc' s' where "sender_step calm_kenv (S_loop ev sm None) s = Inr (pc', s')"
    by (rule sender_step_safe [OF ireach_inv [OF s calm_stack]])
  then have "ipass calm_kenv (Suc 0) (S_loop ev sm None) s pc' s'"
    by (intro ipass.sender [OF ipass.here]) simp_all
  then have p: "ipass calm_kenv 1 (S_loop ev sm None) s pc' s'" by simp
  from interleaved_pass_ends [OF s calm_stack this] p show ?thesis by blast
qed


lemma idle_losses:
  assumes "ireach E hist S_idle s" and "stack_ok E" and "driver_ok E"
  shows "\<exists>yss. messages (kcalls s) = map log_lines yss \<and> subseq (concat yss @ items (queue s)) hist \<and>
    length hist \<le> length (concat yss) + length (items (queue s)) + length yss"
  using ireach_inv [OF assms(1,2)] assms(3) by (auto simp: iinv_def in_flight_def kept_def)



end
