(* ===== verification/Audit_Race.thy ===== *)
theory Audit_Race
  imports Audit_Queue
begin

text \<open>
  The ring buffer has no lock, and \<^verbatim>\<open>audit_log_end\<close> runs on any processor. This theory splits
  \<^verbatim>\<open>enqueue\<close> of \<^verbatim>\<open>src/qemu/linux/audit_qemu.patch\<close> into the steps between which another
  processor can act: the length and the test of \<^verbatim>\<open>queue_num\<close>, the copy into the slot, the
  increment; and \<^verbatim>\<open>dequeue\<close>, which the audit thread calls: the test, the copy, the new head, the
  decrement. One caller alone does what the functions of \<^verbatim>\<open>Audit_Queue\<close> do; two callers at once
  can lose a record.
\<close>

section \<open>Steps of one caller\<close>

datatype enq_pc = Enter | Copy | Increment | Returned int

definition enq_step :: "char list \<Rightarrow> enq_pc \<times> ring \<Rightarrow> (enq_pc \<times> ring) c_result" where
  "enq_step audit_log c =
     (case c of
        (Enter, q) \<Rightarrow>
          (case strlen audit_log of
             Inl e \<Rightarrow> Inl e
           | Inr len \<Rightarrow> if queue_num q < QUEUE_SIZE then Inr (Copy, q) else Inr (Returned (-1), q))
      | (Copy, q) \<Rightarrow>
          (let i = (queue_head q + queue_num q) smod QUEUE_SIZE in
           if \<not> slot_index_ok i then Inl Buffer_overflow
           else case strcpy (test_queue q i) audit_log of
                  Inl e \<Rightarrow> Inl e
                | Inr d \<Rightarrow> Inr (Increment, q\<lparr>test_queue := (test_queue q)(i := d)\<rparr>))
      | (Increment, q) \<Rightarrow> Inr (Returned 0, q\<lparr>queue_num := queue_num q + 1\<rparr>)
      | (Returned r, q) \<Rightarrow> Inr (Returned r, q))"

section \<open>Two callers\<close>

text \<open>A schedule names the caller that acts next: False the first, True the second.\<close>

fun race :: "char list \<Rightarrow> char list \<Rightarrow> bool list \<Rightarrow> enq_pc \<times> enq_pc \<times> ring \<Rightarrow> (enq_pc \<times> enq_pc \<times> ring) c_result" where
  "race a b [] c = Inr c"
| "race a b (second # sched) (p1, p2, q) =
     (if second then
        (case enq_step b (p2, q) of Inl e \<Rightarrow> Inl e | Inr (p2', q') \<Rightarrow> race a b sched (p1, p2', q'))
      else
        (case enq_step a (p1, q) of Inl e \<Rightarrow> Inl e | Inr (p1', q') \<Rightarrow> race a b sched (p1', p2, q')))"

lemma enq_step_simps:
  "NUL \<in> set s \<Longrightarrow> queue_num q < QUEUE_SIZE \<Longrightarrow> enq_step s (Enter, q) = Inr (Copy, q)"
  "enq_step s (Increment, q) = Inr (Returned 0, q\<lparr>queue_num := queue_num q + 1\<rparr>)"
  "enq_step s (Returned r, q) = Inr (Returned r, q)"
  by (simp_all add: enq_step_def strlen_terminated)

lemma enq_step_copy:
  assumes "fits_slot s" and "slot_index_ok ((queue_head q + queue_num q) smod QUEUE_SIZE)"
    and "length (test_queue q ((queue_head q + queue_num q) smod QUEUE_SIZE)) = SLOT_SIZE"
  obtains d where "enq_step s (Copy, q) =
      Inr (Increment, q\<lparr>test_queue := (test_queue q)((queue_head q + queue_num q) smod QUEUE_SIZE := d)\<rparr>)"
    and "cstr d = cstr s" and "length d = SLOT_SIZE" and "NUL \<in> set d"
proof -
  obtain d where d: "strcpy (test_queue q ((queue_head q + queue_num q) smod QUEUE_SIZE)) s = Inr d"
    using assms(1,3) by (auto simp: strcpy_iff fits_slot_def)
  show thesis
    by (rule that [of d]) (use d assms(2,3) strcpy_holds [OF d] in \<open>simp_all add: enq_step_def\<close>)
qed

text \<open>A caller that is not disturbed does exactly what the one-step model does, errors included.\<close>

lemma undisturbed_is_enqueue:
  "race a b [False, False, False] (Enter, p2, q) =
     (case enqueue a q of Inl e \<Rightarrow> Inl e | Inr (r, q') \<Rightarrow> Inr (Returned r, p2, q'))"
  by (auto simp: enq_step_def enqueue_def Let_def split: sum.splits if_splits)

text \<open>Both callers copy before either increments: the second copy lands in the same slot.\<close>

lemma same_slot_twice:
  assumes "ring_inv q" and "fits_slot a" and "fits_slot b" and "queue_num q + 1 < QUEUE_SIZE"
  obtains d where "race a b [False, False, True, True, False, True] (Enter, Enter, q) =
      Inr (Returned 0, Returned 0, (put q d)\<lparr>queue_num := queue_num q + 2\<rparr>)" and "cstr d = cstr b"
    and "length d = SLOT_SIZE" and "NUL \<in> set d"
proof -
  have sl: "(queue_head q + queue_num q) smod QUEUE_SIZE = slot_of q (queue_num q)"
    and len: "length (test_queue q i) = SLOT_SIZE" for i
    using assms(1) by (simp_all add: enqueue_slot ring_inv_def)
  have nul: "NUL \<in> set a" "NUL \<in> set b" "queue_num q < QUEUE_SIZE"
    using assms(2-4) by (simp_all add: fits_slot_def)
  obtain d1 where d1: "enq_step a (Copy, q) = Inr (Increment, q\<lparr>test_queue := (test_queue q)(slot_of q (queue_num q) := d1)\<rparr>)"
      "length d1 = SLOT_SIZE"
    by (rule enq_step_copy [OF assms(2), of q, unfolded sl]) (simp_all add: len)
  let ?q1 = "q\<lparr>test_queue := (test_queue q)(slot_of q (queue_num q) := d1)\<rparr>"
  have q1: "(queue_head ?q1 + queue_num ?q1) smod QUEUE_SIZE = slot_of q (queue_num q)" using sl by simp
  obtain d2 where d2: "enq_step b (Copy, ?q1) = Inr (Increment, ?q1\<lparr>test_queue := (test_queue ?q1)(slot_of q (queue_num q) := d2)\<rparr>)"
      "cstr d2 = cstr b" "length d2 = SLOT_SIZE" "NUL \<in> set d2"
    by (rule enq_step_copy [OF assms(3), of ?q1, unfolded q1]) (simp_all add: d1(2))
  show thesis
    by (rule that [OF _ d2(2-4)]) (use d1(1) d2(1) nul in \<open>simp add: enq_step_simps put_def\<close>)
qed

section \<open>A logger and the audit thread\<close>

datatype deq_pc = D_enter | D_copy | D_head | D_decrement | D_returned int

definition deq_step :: "deq_pc \<times> char list \<times> ring \<Rightarrow> (deq_pc \<times> char list \<times> ring) c_result" where
  "deq_step c =
     (case c of
        (D_enter, b, q) \<Rightarrow> if 0 < queue_num q then Inr (D_copy, b, q) else Inr (D_returned (-1), b, q)
      | (D_copy, b, q) \<Rightarrow>
          (if \<not> slot_index_ok (queue_head q) then Inl Out_of_bounds_read
           else case strcpy b (test_queue q (queue_head q)) of
                  Inl e \<Rightarrow> Inl e
                | Inr d \<Rightarrow> Inr (D_head, d, q))
      | (D_head, b, q) \<Rightarrow> Inr (D_decrement, b, q\<lparr>queue_head := (queue_head q + 1) smod QUEUE_SIZE\<rparr>)
      | (D_decrement, b, q) \<Rightarrow> Inr (D_returned 0, b, q\<lparr>queue_num := queue_num q - 1\<rparr>)
      | (D_returned r, b, q) \<Rightarrow> Inr (D_returned r, b, q))"

text \<open>In a schedule, False is the logger and True the audit thread.\<close>

fun enq_deq_race ::
    "char list \<Rightarrow> bool list \<Rightarrow> enq_pc \<times> deq_pc \<times> char list \<times> ring \<Rightarrow> (enq_pc \<times> deq_pc \<times> char list \<times> ring) c_result" where
  "enq_deq_race a [] c = Inr c"
| "enq_deq_race a (thread # sched) (p1, p2, b, q) =
     (if thread then
        (case deq_step (p2, b, q) of Inl e \<Rightarrow> Inl e | Inr (p2', b', q') \<Rightarrow> enq_deq_race a sched (p1, p2', b', q'))
      else
        (case enq_step a (p1, q) of Inl e \<Rightarrow> Inl e | Inr (p1', q') \<Rightarrow> enq_deq_race a sched (p1', p2, b, q')))"

lemma undisturbed_is_dequeue:
  "enq_deq_race a [True, True, True, True] (p1, D_enter, b, q) =
     (case dequeue b q of Inl e \<Rightarrow> Inl e | Inr (r, b', q') \<Rightarrow> Inr (p1, D_returned r, b', q'))"
  by (auto simp: deq_step_def dequeue_def split: sum.splits if_splits)

text \<open>The head has moved and the count has not: the new record lands one slot too far.\<close>

lemma one_slot_too_far:
  assumes "ring_inv q" and "fits_slot a" and "slot_buffer b" and "0 < queue_num q" and "queue_num q + 1 < QUEUE_SIZE"
  obtains b' d where "enq_deq_race a [True, True, True, False, False, False, True] (Enter, D_enter, b, q) =
      Inr (Returned 0, D_returned 0, b', q\<lparr>queue_head := slot_of q 1,
        test_queue := (test_queue q)(slot_of q (queue_num q + 1) := d)\<rparr>)"
    and "cstr b' = cstr (test_queue q (queue_head q))" and "cstr d = cstr a"
proof -
  have len: "length (test_queue q i) = SLOT_SIZE" for i using assms(1) by (simp add: ring_inv_def)
  obtain b' where b': "dequeue b q = Inr (0, b', dropped q)" "cstr b' = cstr (test_queue q (queue_head q))"
    by (rule dequeue_drop [OF assms(1,3,4)])
  then have cp: "slot_index_ok (queue_head q)" "strcpy b (test_queue q (queue_head q)) = Inr b'"
    using assms(4) by (auto simp: dequeue_def split: if_splits sum.splits)
  have h: "(queue_head q + 1) smod QUEUE_SIZE = slot_of q 1"
    using assms(1) by (simp add: slot_of_def ring_inv_def smod_nonneg QUEUE_SIZE_def)
  let ?q1 = "q\<lparr>queue_head := slot_of q 1\<rparr>"
  have i: "(queue_head ?q1 + queue_num ?q1) smod QUEUE_SIZE = slot_of q (queue_num q + 1)"
    using assms(4) by (simp add: slot_of_def smod_nonneg QUEUE_SIZE_def mod_simps algebra_simps)
  obtain d where d: "enq_step a (Copy, ?q1) = Inr (Increment, ?q1\<lparr>test_queue := (test_queue ?q1)(slot_of q (queue_num q + 1) := d)\<rparr>)"
      "cstr d = cstr a"
    by (rule enq_step_copy [OF assms(2), of ?q1, unfolded i]) (simp_all add: len)
  have nul: "NUL \<in> set a" using assms(2) by (simp add: fits_slot_def)
  show thesis
    by (rule that [OF _ b'(2) d(2)])
       (use cp d(1) h nul assms(4,5) in \<open>simp add: deq_step_def enq_step_simps\<close>)
qed

section \<open>Properties\<close>

text \<open>
  C34: two processors that log at the same time can lose a record without notice. From every
  valid ring with room for both, there is a schedule in which both calls of \<^verbatim>\<open>enqueue\<close> return
  0 and the ring grows by two, but holds the second record in the place of the first and then
  whatever the next slot held before: the first record is gone and a stale one reappears.
  Without the interleaving each call behaves as the one-step model.
\<close>

theorem concurrent_enqueue_loses_record:
  assumes "ring_inv q" and "fits_slot a" and "fits_slot b" and "queue_num q + 1 < QUEUE_SIZE"
  shows "\<exists>sched q'. race a b sched (Enter, Enter, q) = Inr (Returned 0, Returned 0, q') \<and>
    items q' = items q @ [cstr b, cstr (test_queue q (slot_of q (queue_num q + 1)))]"
proof -
  obtain d where d: "race a b [False, False, True, True, False, True] (Enter, Enter, q) =
      Inr (Returned 0, Returned 0, (put q d)\<lparr>queue_num := queue_num q + 2\<rparr>)" "cstr d = cstr b"
    by (rule same_slot_twice [OF assms])
  let ?q' = "(put q d)\<lparr>queue_num := queue_num q + 2\<rparr>"
  have n: "queue_num q < QUEUE_SIZE" "0 \<le> queue_num q" using assms(1,4) by (simp_all add: ring_inv_def)
  have "slot_of q (queue_num q + 1) \<noteq> slot_of q (queue_num q)"
    using slot_of_inj [of q "queue_num q + 1" "queue_num q"] n assms(4) by auto
  then have stale: "test_queue (put q d) (slot_of q (queue_num q + 1)) = test_queue q (slot_of q (queue_num q + 1))"
    by (simp add: put_def)
  have "nat (queue_num q + 2) = Suc (nat (queue_num (put q d)))" "int (nat (queue_num (put q d))) = queue_num q + 1"
    using n by (simp_all add: put_def)
  then have "items ?q' = items (put q d) @ [cstr (test_queue (put q d) (slot_of q (queue_num q + 1)))]"
    by (simp add: items_def slot_of_def put_def)
  with d(2) stale items_put [OF assms(1) n(1), of d]
  have "items ?q' = items q @ [cstr b, cstr (test_queue q (slot_of q (queue_num q + 1)))]" by simp
  with d(1) show ?thesis by blast
qed

theorem concurrent_enqueue_loses_record_witness:
  "\<exists>sched q'. race (lit ''a'') (lit ''b'') sched (Enter, Enter, ring_init) = Inr (Returned 0, Returned 0, q') \<and>
    items q' = items ring_init @ [cstr (lit ''b''), cstr (test_queue ring_init (slot_of ring_init (queue_num ring_init + 1)))]"
  by (rule concurrent_enqueue_loses_record)
     (simp_all add: fits_slot_def SLOT_SIZE_def ring_init_def [THEN arg_cong [of _ _ queue_num]] QUEUE_SIZE_def)

text \<open>
  Logging while the audit thread takes a record can lose the new one. From every valid
  ring that holds a record and has room for two, there is a schedule in which \<^verbatim>\<open>dequeue\<close> hands
  out the oldest record, both calls return 0 and the number of waiting records is right, but
  the new record lies behind the end of the ring, and the last waiting record is whatever its
  slot held before.
\<close>

theorem concurrent_dequeue_misplaces_record:
  assumes "ring_inv q" and "fits_slot a" and "slot_buffer b" and "0 < queue_num q" and "queue_num q + 1 < QUEUE_SIZE"
  shows "\<exists>sched b' q'. enq_deq_race a sched (Enter, D_enter, b, q) = Inr (Returned 0, D_returned 0, b', q') \<and>
    cstr b' = hd (items q) \<and> items q' = tl (items q) @ [cstr (test_queue q (slot_of q (queue_num q)))] \<and>
    cstr (test_queue q' (slot_of q' (queue_num q'))) = cstr a"
proof -
  obtain b' d where r: "enq_deq_race a [True, True, True, False, False, False, True] (Enter, D_enter, b, q) =
      Inr (Returned 0, D_returned 0, b', q\<lparr>queue_head := slot_of q 1,
        test_queue := (test_queue q)(slot_of q (queue_num q + 1) := d)\<rparr>)"
      "cstr b' = cstr (test_queue q (queue_head q))" "cstr d = cstr a"
    by (rule one_slot_too_far [OF assms])
  let ?q' = "q\<lparr>queue_head := slot_of q 1, test_queue := (test_queue q)(slot_of q (queue_num q + 1) := d)\<rparr>"
  obtain n where n: "queue_num q = int (Suc n)" using assms(4) by (metis gr0_implies_Suc pos_int_cases)
  have sl: "slot_of ?q' k = slot_of q (k + 1)" for k by (simp add: slot_of_def mod_simps algebra_simps)
  have other: "test_queue ?q' (slot_of q (k + 1)) = test_queue q (slot_of q (k + 1))" if "0 \<le> k" "k < queue_num q" for k
    using slot_of_inj [of q "k + 1" "queue_num q + 1"] that assms(5) by auto
  have "items ?q' = map (\<lambda>k. cstr (test_queue q (slot_of q (int k + 1)))) [0..<Suc n]"
  proof -
    have "nat (queue_num ?q') = Suc n" using n by simp
    moreover have "cstr (test_queue ?q' (slot_of ?q' (int k))) = cstr (test_queue q (slot_of q (int k + 1)))"
      if "k \<in> set [0..<Suc n]" for k
      unfolding sl using that n by (intro arg_cong [of _ _ cstr] other) auto
    ultimately show ?thesis unfolding items_def by (simp only:) (rule map_cong [OF refl])
  qed
  also have "\<dots> = map (\<lambda>k. cstr (test_queue q (slot_of q (int k)))) [Suc 0..<Suc (Suc n)]"
    by (simp add: map_Suc_upt [symmetric] o_def del: upt_Suc) (simp add: add.commute)
  also have "\<dots> = tl (items q) @ [cstr (test_queue q (slot_of q (queue_num q)))]"
  proof -
    have "items q = map (\<lambda>k. cstr (test_queue q (slot_of q (int k)))) [0..<Suc n]" unfolding items_def n nat_int ..
    then have "tl (items q) = map (\<lambda>k. cstr (test_queue q (slot_of q (int k)))) [Suc 0..<Suc n]"
      by (simp only: upt_conv_Cons [of 0 "Suc n"] list.map list.sel zero_less_Suc)
    moreover have "[Suc 0..<Suc (Suc n)] = [Suc 0..<Suc n] @ [Suc n]" by simp
    ultimately show ?thesis by (simp only: n map_append list.map)
  qed
  finally have "items ?q' = tl (items q) @ [cstr (test_queue q (slot_of q (queue_num q)))]" .
  moreover have "hd (items q) = cstr (test_queue q (queue_head q))"
    using items_Cons [OF assms(1,4)] by simp
  moreover have "cstr (test_queue ?q' (slot_of ?q' (queue_num ?q'))) = cstr a" using r(3) by (simp add: sl)
  ultimately show ?thesis using r(1,2) by metis
qed

definition one_waiting :: ring where
  "one_waiting = put ring_init (''a'' @ NUL # replicate 1022 NUL)"

lemma one_waiting_ok: "ring_inv one_waiting" "items one_waiting = [''a'']" "queue_num one_waiting = 1"
  using ring_inv_put [OF ring_inv_init, of "''a'' @ NUL # replicate 1022 NUL"]
    items_put [OF ring_inv_init, of "''a'' @ NUL # replicate 1022 NUL"] cstr_append [of "''a''" "replicate 1022 NUL"]
  by (simp_all add: one_waiting_def ring_init_def [THEN arg_cong [of _ _ queue_num]] QUEUE_SIZE_def SLOT_SIZE_def put_def)

theorem concurrent_dequeue_misplaces_record_witness:
  "\<exists>sched b' q'. enq_deq_race (lit ''b'') sched (Enter, D_enter, replicate 1024 NUL, one_waiting) =
      Inr (Returned 0, D_returned 0, b', q') \<and>
    cstr b' = ''a'' \<and> items q' = [cstr (test_queue one_waiting (slot_of one_waiting 1))] \<and>
    cstr (test_queue q' (slot_of q' (queue_num q'))) = ''b''"
proof -
  have "fits_slot (lit ''b'')" "slot_buffer (replicate 1024 NUL)"
    by (simp_all add: fits_slot_def slot_buffer_def SLOT_SIZE_def)
  from concurrent_dequeue_misplaces_record [OF one_waiting_ok(1) this] one_waiting_ok(2,3)
  show ?thesis by (simp add: QUEUE_SIZE_def)
qed

end
