(* ===== verification/Gp_Api.thy ===== *)
theory Gp_Api
  imports Tee_Prelude
begin

text \<open>
  What the trusted applications use of the GlobalPlatform TEE Internal API: result codes,
  parameter types, the \<^verbatim>\<open>TEE_Param\<close> array, TCP sockets, the TA heap and sessions to other
  TAs. The API's implementation is not part of the repository, so it is an environment, the
  record \<^verbatim>\<open>tee_env\<close>: a service answers as a function of the calls made so far, and every
  theorem quantifies over all such environments. The calls themselves are recorded in the
  trace of the TA's state, in order and with their answers.

  Named constants of the API (result codes, parameter types, the infinite timeout) are
  constructors of datatypes: the code only compares them. The packing of four parameter types
  into a word is a function of the environment.
\<close>

section \<open>Constants and parameters\<close>

datatype TEE_Result =
    TEE_SUCCESS
  | TEE_ERROR_GENERIC
  | TEE_ERROR_BAD_PARAMETERS
  | TEE_ERROR_NOT_IMPLEMENTED
  | TEE_ISOCKET_ERROR_REMOTE_CLOSED
  | TEE_ISOCKET_ERROR_TIMEOUT
  | TEE_other_result u32

datatype param_type =
    TEE_PARAM_TYPE_NONE
  | TEE_PARAM_TYPE_VALUE_INPUT
  | TEE_PARAM_TYPE_VALUE_OUTPUT
  | TEE_PARAM_TYPE_VALUE_INOUT
  | TEE_PARAM_TYPE_MEMREF_INPUT
  | TEE_PARAM_TYPE_MEMREF_OUTPUT
  | TEE_PARAM_TYPE_MEMREF_INOUT

datatype timeout = TEE_TIMEOUT_INFINITE | Timeout_ms u32

datatype ip_version = TEE_IP_VERSION_DC | TEE_IP_VERSION_4 | TEE_IP_VERSION_6

text \<open>
  \<^verbatim>\<open>TEE_Param\<close> is a union of a value pair and a memory reference; the code reads the member
  its parameter type names. A memory reference points to a memory object (or is NULL), whose
  length can differ from the size the caller states.
\<close>

record TEE_Param =
  value_a :: u32
  value_b :: u32
  memref_buffer :: "char list option"
  memref_size :: u64

type_synonym params = "nat \<Rightarrow> TEE_Param"

definition zero_param :: TEE_Param where
  "zero_param = \<lparr>value_a = 0, value_b = 0, memref_buffer = None, memref_size = 0\<rparr>"

type_synonym TEE_UUID = "u32 \<times> u16 \<times> u16 \<times> u8 list"

record tcp_setup =
  ipVersion :: ip_version
  server_port :: u16
  server_addr :: string

section \<open>The environment\<close>

datatype tee_call =
    Ev_open tcp_setup TEE_Result nat
  | Ev_send nat "char list" timeout TEE_Result
  | Ev_close nat
  | Ev_malloc u64 "nat option"
  | Ev_free "nat option"
  | Ev_open_session TEE_UUID TEE_Result nat
  | Ev_invoke nat u32 u32 TEE_Result
  | Ev_close_session nat

record tee_env =
  TEE_PARAM_TYPES :: "param_type \<Rightarrow> param_type \<Rightarrow> param_type \<Rightarrow> param_type \<Rightarrow> u32"
  tcp_open :: "tee_call list \<Rightarrow> tcp_setup \<Rightarrow> TEE_Result \<times> nat"
  tcp_send :: "tee_call list \<Rightarrow> nat \<Rightarrow> char list \<Rightarrow> TEE_Result"
  heap_alloc :: "tee_call list \<Rightarrow> u64 \<Rightarrow> nat option"
  session_open :: "tee_call list \<Rightarrow> TEE_UUID \<Rightarrow> TEE_Result \<times> nat"
  session_invoke :: "tee_call list \<Rightarrow> nat \<Rightarrow> u32 \<Rightarrow> u32 \<Rightarrow> params \<Rightarrow> (TEE_Result \<times> params) c_result"

section \<open>The state of a trusted application\<close>

datatype sock_iface = TEE_tcpSocket

record sock_handle =
  ctx :: nat
  socket :: "sock_iface option"

record ta_state =
  h :: sock_handle
  heap :: "nat \<rightharpoonup> char list"
  calls :: "tee_call list"

definition ta_init :: ta_state where
  "ta_init = \<lparr>h = \<lparr>ctx = 0, socket = None\<rparr>, heap = Map.empty, calls = []\<rparr>"

section \<open>API calls\<close>

text \<open>
  \<^verbatim>\<open>socket->open\<close>, \<^verbatim>\<open>send\<close> and \<^verbatim>\<open>close\<close> through the interface pointer of a handle. The length
  of a send is the 32-bit word the length pointer points at.
\<close>

definition sock_open ::
    "tee_env \<Rightarrow> sock_iface option \<Rightarrow> tcp_setup \<Rightarrow> ta_state \<Rightarrow> (TEE_Result \<times> nat \<times> ta_state) c_result" where
  "sock_open E iface su s =
     (case iface of
        None \<Rightarrow> Inl Null_dereference
      | Some TEE_tcpSocket \<Rightarrow>
          (let (r, c) = tcp_open E (calls s) su
           in Inr (r, c, s\<lparr>calls := calls s @ [Ev_open su r c]\<rparr>)))"

definition sock_send ::
    "tee_env \<Rightarrow> nat \<Rightarrow> char list \<Rightarrow> u32 \<Rightarrow> timeout \<Rightarrow> ta_state \<Rightarrow> (TEE_Result \<times> ta_state) c_result" where
  "sock_send E c buf len t s =
     (if length buf < unat len then Inl Out_of_bounds_read
      else let data = take (unat len) buf; r = tcp_send E (calls s) c data
           in Inr (r, s\<lparr>calls := calls s @ [Ev_send c data t r]\<rparr>))"

definition sock_close :: "nat \<Rightarrow> ta_state \<Rightarrow> ta_state" where
  "sock_close c s = s\<lparr>calls := calls s @ [Ev_close c]\<rparr>"

definition TEE_Malloc :: "tee_env \<Rightarrow> u64 \<Rightarrow> ta_state \<Rightarrow> nat option \<times> ta_state" where
  "TEE_Malloc E n s =
     (let p = heap_alloc E (calls s) n;
          s' = s\<lparr>calls := calls s @ [Ev_malloc n p]\<rparr>
      in case p of
           None \<Rightarrow> (None, s')
         | Some a \<Rightarrow> (Some a, s'\<lparr>heap := (heap s)(a \<mapsto> replicate (unat n) NUL)\<rparr>))"

definition TEE_Free :: "nat option \<Rightarrow> ta_state \<Rightarrow> ta_state" where
  "TEE_Free p s =
     s\<lparr>heap := (case p of None \<Rightarrow> heap s | Some a \<Rightarrow> (heap s)(a := None)),
       calls := calls s @ [Ev_free p]\<rparr>"

text \<open>The bytes a pointer into the heap points at; NULL has none.\<close>

definition heap_bytes :: "nat option \<Rightarrow> ta_state \<Rightarrow> char list" where
  "heap_bytes p s = (case p of None \<Rightarrow> [] | Some a \<Rightarrow> (case heap s a of None \<Rightarrow> [] | Some b \<Rightarrow> b))"

definition TEE_MemMove :: "nat option \<Rightarrow> char list option \<Rightarrow> u64 \<Rightarrow> ta_state \<Rightarrow> ta_state c_result" where
  "TEE_MemMove dst src n s =
     (if n = 0 then Inr s
      else case (dst, src) of
             (Some a, Some b) \<Rightarrow>
               (case memcpy (heap_bytes dst s) b (unat n) of
                  Inl e \<Rightarrow> Inl e
                | Inr d \<Rightarrow> Inr (s\<lparr>heap := (heap s)(a \<mapsto> d)\<rparr>))
           | _ \<Rightarrow> Inl Null_dereference)"

definition TEE_OpenTASession :: "tee_env \<Rightarrow> TEE_UUID \<Rightarrow> ta_state \<Rightarrow> TEE_Result \<times> nat \<times> ta_state" where
  "TEE_OpenTASession E u s =
     (let (r, sess) = session_open E (calls s) u
      in (r, sess, s\<lparr>calls := calls s @ [Ev_open_session u r sess]\<rparr>))"

definition TEE_InvokeTACommand ::
    "tee_env \<Rightarrow> nat \<Rightarrow> u32 \<Rightarrow> u32 \<Rightarrow> params \<Rightarrow> ta_state \<Rightarrow> (TEE_Result \<times> params \<times> ta_state) c_result" where
  "TEE_InvokeTACommand E sess cmd types ps s =
     (case session_invoke E (calls s) sess cmd types ps of
        Inl e \<Rightarrow> Inl e
      | Inr (r, ps') \<Rightarrow> Inr (r, ps', s\<lparr>calls := calls s @ [Ev_invoke sess cmd types r]\<rparr>))"

definition TEE_CloseTASession :: "nat \<Rightarrow> ta_state \<Rightarrow> ta_state" where
  "TEE_CloseTASession sess s = s\<lparr>calls := calls s @ [Ev_close_session sess]\<rparr>"

section \<open>A concrete environment\<close>

text \<open>A concrete environment: every service succeeds, sockets and heap blocks are numbered by the trace.\<close>

definition demo_types :: "param_type \<Rightarrow> param_type \<Rightarrow> param_type \<Rightarrow> param_type \<Rightarrow> u32" where
  "demo_types a b c d =
     (let n = (\<lambda>t. case t of TEE_PARAM_TYPE_NONE \<Rightarrow> 0 | TEE_PARAM_TYPE_VALUE_INPUT \<Rightarrow> 1
                | TEE_PARAM_TYPE_VALUE_OUTPUT \<Rightarrow> 2 | TEE_PARAM_TYPE_VALUE_INOUT \<Rightarrow> 3
                | TEE_PARAM_TYPE_MEMREF_INPUT \<Rightarrow> 5 | TEE_PARAM_TYPE_MEMREF_OUTPUT \<Rightarrow> 6
                | TEE_PARAM_TYPE_MEMREF_INOUT \<Rightarrow> 7)
      in n a + 16 * n b + 256 * n c + 4096 * n d)"

definition demo_env :: tee_env where
  "demo_env = \<lparr>TEE_PARAM_TYPES = demo_types,
     tcp_open = (\<lambda>t su. (TEE_SUCCESS, length t)), tcp_send = (\<lambda>t c d. TEE_SUCCESS),
     heap_alloc = (\<lambda>t n. Some (length t)), session_open = (\<lambda>t u. (TEE_SUCCESS, length t)),
     session_invoke = (\<lambda>t sess cmd ty ps. Inr (TEE_SUCCESS, ps))\<rparr>"

definition out_params :: "nat \<Rightarrow> params" where
  "out_params n = (\<lambda>_. zero_param)(1 := zero_param\<lparr>memref_buffer := Some (replicate n NUL), memref_size := of_nat n\<rparr>)"

section \<open>Reading a trace\<close>

text \<open>What reached the network, and how many sockets were opened and closed.\<close>

fun sent_of :: "tee_call \<Rightarrow> char list option" where
  "sent_of (Ev_send c d t TEE_SUCCESS) = Some d"
| "sent_of _ = None"

definition network :: "tee_call list \<Rightarrow> char list list" where
  "network evs = List.map_filter sent_of evs"

fun opens :: "tee_call \<Rightarrow> bool" where
  "opens (Ev_open su TEE_SUCCESS c) = True"
| "opens _ = False"

fun closes :: "tee_call \<Rightarrow> bool" where
  "closes (Ev_close c) = True"
| "closes _ = False"

definition n_opened :: "tee_call list \<Rightarrow> nat" where
  "n_opened evs = length (filter opens evs)"

definition n_closed :: "tee_call list \<Rightarrow> nat" where
  "n_closed evs = length (filter closes evs)"

lemma trace_append [simp]:
  "network (xs @ ys) = network xs @ network ys"
  "n_opened (xs @ ys) = n_opened xs + n_opened ys"
  "n_closed (xs @ ys) = n_closed xs + n_closed ys"
  by (simp_all add: network_def n_opened_def n_closed_def List.map_filter_def)

lemma trace_Nil [simp]: "network [] = []" "n_opened [] = 0" "n_closed [] = 0"
  by (simp_all add: network_def n_opened_def n_closed_def List.map_filter_def)

lemma trace_Cons [simp]:
  "network (e # es) = (case sent_of e of None \<Rightarrow> [] | Some d \<Rightarrow> [d]) @ network es"
  "n_opened (e # es) = (if opens e then 1 else 0) + n_opened es"
  "n_closed (e # es) = (if closes e then 1 else 0) + n_closed es"
  by (simp_all add: network_def n_opened_def n_closed_def List.map_filter_def split: option.splits)

lemma opens_iff [simp]: "opens (Ev_open su r c) \<longleftrightarrow> r = TEE_SUCCESS"
  by (cases r) auto

lemma sent_of_send [simp]: "sent_of (Ev_send c d t r) = (if r = TEE_SUCCESS then Some d else None)"
  by (cases r) auto

lemmas gp_defs =
  sock_open_def sock_send_def sock_close_def TEE_Malloc_def TEE_Free_def TEE_MemMove_def
  TEE_OpenTASession_def TEE_InvokeTACommand_def TEE_CloseTASession_def heap_bytes_def

section \<open>The log sender both trusted applications contain\<close>

text \<open>
  \<^verbatim>\<open>ta_collect.c\<close> and \<^verbatim>\<open>kernel_integrity_ta.c\<close> each define a \<^verbatim>\<open>send_event_log\<close>. The contract of
  such a sender: one connection to the log receiver per call, the message and its length on
  it, and one of three results. The consequences are proved here once.
\<close>

definition receiver_setup :: tcp_setup where
  "receiver_setup = \<lparr>ipVersion = TEE_IP_VERSION_4, server_port = 8080, server_addr = ''receiver''\<rparr>"

locale event_log_sender =
  fixes send_log :: "tee_env \<Rightarrow> char list \<Rightarrow> u64 \<Rightarrow> ta_state \<Rightarrow> (TEE_Result \<times> ta_state) c_result"
  assumes refused: "tcp_open E (calls s) receiver_setup = (r, c) \<Longrightarrow> r \<noteq> TEE_SUCCESS \<Longrightarrow>
      \<exists>s'. send_log E buf len s = Inr (TEE_ISOCKET_ERROR_REMOTE_CLOSED, s') \<and> heap s' = heap s \<and>
        calls s' = calls s @ [Ev_open receiver_setup r c]"
    and unsent: "tcp_open E (calls s) receiver_setup = (TEE_SUCCESS, c) \<Longrightarrow>
      unat (ucast len :: u32) \<le> length buf \<Longrightarrow> data = take (unat (ucast len :: u32)) buf \<Longrightarrow>
      tcp_send E (calls s @ [Ev_open receiver_setup TEE_SUCCESS c]) c data = r \<Longrightarrow> r \<noteq> TEE_SUCCESS \<Longrightarrow>
      \<exists>s'. send_log E buf len s = Inr (TEE_ISOCKET_ERROR_TIMEOUT, s') \<and> heap s' = heap s \<and>
        calls s' = calls s @ [Ev_open receiver_setup TEE_SUCCESS c, Ev_send c data TEE_TIMEOUT_INFINITE r]"
    and sent: "tcp_open E (calls s) receiver_setup = (TEE_SUCCESS, c) \<Longrightarrow>
      unat (ucast len :: u32) \<le> length buf \<Longrightarrow> data = take (unat (ucast len :: u32)) buf \<Longrightarrow>
      tcp_send E (calls s @ [Ev_open receiver_setup TEE_SUCCESS c]) c data = TEE_SUCCESS \<Longrightarrow>
      \<exists>s'. send_log E buf len s = Inr (TEE_SUCCESS, s') \<and> heap s' = heap s \<and>
        calls s' = calls s @ [Ev_open receiver_setup TEE_SUCCESS c,
          Ev_send c data TEE_TIMEOUT_INFINITE TEE_SUCCESS, Ev_close c]"
begin

lemma outcome_events:
  assumes "unat (ucast len :: u32) \<le> length buf"
  obtains r s' ev where "send_log E buf len s = Inr (r, s')" and "heap s' = heap s" and "calls s' = calls s @ ev"
    and "r \<in> {TEE_SUCCESS, TEE_ISOCKET_ERROR_REMOTE_CLOSED, TEE_ISOCKET_ERROR_TIMEOUT}"
    and "network ev = (if r = TEE_SUCCESS then [take (unat (ucast len :: u32)) buf] else [])"
    and "n_opened ev = (if r = TEE_ISOCKET_ERROR_REMOTE_CLOSED then 0 else 1)"
    and "n_closed ev = (if r = TEE_SUCCESS then 1 else 0)"
proof -
  obtain ro c where op: "tcp_open E (calls s) receiver_setup = (ro, c)" by (cases "tcp_open E (calls s) receiver_setup")
  define data where "data = take (unat (ucast len :: u32)) buf"
  consider (closed) "ro \<noteq> TEE_SUCCESS"
    | (ok) "ro = TEE_SUCCESS" "tcp_send E (calls s @ [Ev_open receiver_setup TEE_SUCCESS c]) c data = TEE_SUCCESS"
    | (failed) "ro = TEE_SUCCESS" "tcp_send E (calls s @ [Ev_open receiver_setup TEE_SUCCESS c]) c data \<noteq> TEE_SUCCESS"
    by blast
  then show thesis
  proof cases
    case closed
    from refused [OF op closed, of buf len] closed show thesis
      by (auto intro!: that [of TEE_ISOCKET_ERROR_REMOTE_CLOSED _ "[Ev_open receiver_setup ro c]"])
  next
    case ok
    from sent [OF op [unfolded ok(1)] assms data_def ok(2)] show thesis
      by (auto simp: data_def intro!: that [of TEE_SUCCESS _ "[Ev_open receiver_setup TEE_SUCCESS c,
          Ev_send c data TEE_TIMEOUT_INFINITE TEE_SUCCESS, Ev_close c]"])
  next
    case failed
    from unsent [OF op [unfolded failed(1)] assms data_def refl failed(2)] failed(2) show thesis
      by (auto intro!: that [of TEE_ISOCKET_ERROR_TIMEOUT _ "[Ev_open receiver_setup TEE_SUCCESS c,
          Ev_send c data TEE_TIMEOUT_INFINITE (tcp_send E (calls s @ [Ev_open receiver_setup TEE_SUCCESS c]) c data)]"])
  qed
qed

lemma outcome:
  assumes "unat (ucast len :: u32) \<le> length buf"
  obtains r s' where "send_log E buf len s = Inr (r, s')" and "heap s' = heap s"
    and "r \<in> {TEE_SUCCESS, TEE_ISOCKET_ERROR_REMOTE_CLOSED, TEE_ISOCKET_ERROR_TIMEOUT}"
    and "network (calls s') = network (calls s) @
      (if r = TEE_SUCCESS then [take (unat (ucast len :: u32)) buf] else [])"
    and "n_opened (calls s') = n_opened (calls s) + (if r = TEE_ISOCKET_ERROR_REMOTE_CLOSED then 0 else 1)"
    and "n_closed (calls s') = n_closed (calls s) + (if r = TEE_SUCCESS then 1 else 0)"
proof (rule outcome_events [OF assms, of E s])
  fix r s' ev
  assume "send_log E buf len s = Inr (r, s')" "heap s' = heap s" "calls s' = calls s @ ev"
    "r \<in> {TEE_SUCCESS, TEE_ISOCKET_ERROR_REMOTE_CLOSED, TEE_ISOCKET_ERROR_TIMEOUT}"
    "network ev = (if r = TEE_SUCCESS then [take (unat (ucast len :: u32)) buf] else [])"
    "n_opened ev = (if r = TEE_ISOCKET_ERROR_REMOTE_CLOSED then 0 else 1)"
    "n_closed ev = (if r = TEE_SUCCESS then 1 else 0)"
  then show thesis by (intro that [of r s']) simp_all
qed

end

end
