(* ===== verification/Ta_Collect.thy ===== *)
theory Ta_Collect
  imports Gp_Api
begin

text \<open>
  TA-Collect, \<^verbatim>\<open>src/qemu/optee_examples/collect/ta/ta_collect.c\<close>: the trusted application that
  the patched kernel hands audit records to and that forwards each message to the log
  receiver over TCP. Entry points, the sender, the message handler and the connection test
  are modelled on the environment of \<^verbatim>\<open>Gp_Api\<close>. A faulting access in the TA is an error
  value, where OP-TEE would panic the TA.
\<close>

section \<open>Constants\<close>

definition TA_INTROSPECTION_UUID :: TEE_UUID where
  "TA_INTROSPECTION_UUID =
     (0x627a757a, 0x9924, 0x11ec, [0xb9, 0x09, 0x02, 0x42, 0xac, 0x12, 0x00, 0x02])"

definition TA_COLLECT_TCP_TEST :: u32 where "TA_COLLECT_TCP_TEST = 0"
definition TA_COLLECT_SEND_MSG :: u32 where "TA_COLLECT_SEND_MSG = 1"

text \<open>The properties the loader takes from \<^verbatim>\<open>user_ta_header_defines.h\<close>.\<close>

definition TA_UUID :: TEE_UUID where "TA_UUID = TA_INTROSPECTION_UUID"
definition TA_STACK_SIZE :: nat where "TA_STACK_SIZE = 2 * 1024 * 1024"
definition TA_DATA_SIZE :: nat where "TA_DATA_SIZE = 4 * 1024 * 1024"

definition TCP_SERVER :: string where "TCP_SERVER = ''receiver''"

section \<open>Entry points and operations\<close>

definition TA_CreateEntryPoint :: "ta_state \<Rightarrow> TEE_Result \<times> ta_state" where
  "TA_CreateEntryPoint s = (TEE_SUCCESS, s)"

definition TA_DestroyEntryPoint :: "ta_state \<Rightarrow> ta_state" where
  "TA_DestroyEntryPoint s = s"

definition tcp_setup_for :: "u16 \<Rightarrow> string \<Rightarrow> tcp_setup" where
  "tcp_setup_for port addr = \<lparr>ipVersion = TEE_IP_VERSION_4, server_port = port, server_addr = addr\<rparr>"

definition TA_OpenSessionEntryPoint ::
    "tee_env \<Rightarrow> u32 \<Rightarrow> ta_state \<Rightarrow> (TEE_Result \<times> ta_state) c_result" where
  "TA_OpenSessionEntryPoint E param_types s =
     (let exp_param_types = TEE_PARAM_TYPES E TEE_PARAM_TYPE_NONE TEE_PARAM_TYPE_NONE
                              TEE_PARAM_TYPE_NONE TEE_PARAM_TYPE_NONE in
      if param_types \<noteq> exp_param_types then Inr (TEE_ERROR_BAD_PARAMETERS, s)
      else
        let su = tcp_setup_for 8080 TCP_SERVER;
            s1 = s\<lparr>h := (h s)\<lparr>socket := Some TEE_tcpSocket\<rparr>\<rparr> in
        case sock_open E (socket (h s1)) su s1 of
          Inl e \<Rightarrow> Inl e
        | Inr (res, c, s2) \<Rightarrow>
            (let s3 = s2\<lparr>h := (h s2)\<lparr>ctx := c\<rparr>\<rparr> in
             if res \<noteq> TEE_SUCCESS then Inr (TEE_ISOCKET_ERROR_REMOTE_CLOSED, s3)
             else Inr (TEE_SUCCESS, s3)))"

definition TA_CloseSessionEntryPoint :: "ta_state \<Rightarrow> ta_state" where
  "TA_CloseSessionEntryPoint s = s"

text \<open>
  The caller passes the length itself in the parameter declared \<^verbatim>\<open>size_t *length\<close>, and the
  function passes \<^verbatim>\<open>&length\<close> on as the \<^verbatim>\<open>uint32_t *\<close> of \<^verbatim>\<open>send\<close>: the service reads the low 32
  bits of the 64-bit length (AArch64 is little endian).
\<close>

definition send_event_log ::
    "tee_env \<Rightarrow> char list \<Rightarrow> u64 \<Rightarrow> ta_state \<Rightarrow> (TEE_Result \<times> ta_state) c_result" where
  "send_event_log E ab len s =
     (let su = tcp_setup_for 8080 TCP_SERVER;
          s1 = s\<lparr>h := (h s)\<lparr>socket := Some TEE_tcpSocket\<rparr>\<rparr> in
      case sock_open E (socket (h s1)) su s1 of
        Inl e \<Rightarrow> Inl e
      | Inr (res, c, s2) \<Rightarrow>
          (let s3 = s2\<lparr>h := (h s2)\<lparr>ctx := c\<rparr>\<rparr> in
           if res \<noteq> TEE_SUCCESS then Inr (TEE_ISOCKET_ERROR_REMOTE_CLOSED, s3)
           else
             case sock_send E (ctx (h s3)) ab (ucast len) TEE_TIMEOUT_INFINITE s3 of
               Inl e \<Rightarrow> Inl e
             | Inr (res2, s4) \<Rightarrow>
                 if res2 \<noteq> TEE_SUCCESS then Inr (TEE_ISOCKET_ERROR_TIMEOUT, s4)
                 else Inr (TEE_SUCCESS, sock_close (ctx (h s4)) s4)))"

definition show_recv_msg ::
    "tee_env \<Rightarrow> u32 \<Rightarrow> params \<Rightarrow> ta_state \<Rightarrow> (TEE_Result \<times> ta_state) c_result" where
  "show_recv_msg E param_types params s =
     (let exp_param_types = TEE_PARAM_TYPES E TEE_PARAM_TYPE_MEMREF_INPUT TEE_PARAM_TYPE_NONE
                              TEE_PARAM_TYPE_NONE TEE_PARAM_TYPE_NONE in
      if param_types \<noteq> exp_param_types then Inr (TEE_ERROR_BAD_PARAMETERS, s)
      else
        let msg_len = memref_size (params 0);
            (ab, s1) = TEE_Malloc E msg_len s in
        case TEE_MemMove ab (memref_buffer (params 0)) msg_len s1 of
          Inl e \<Rightarrow> Inl e
        | Inr s2 \<Rightarrow>
            (case send_event_log E (heap_bytes ab s2) msg_len s2 of
               Inl e \<Rightarrow> Inl e
             | Inr (res, s3) \<Rightarrow>
                 if res \<noteq> TEE_SUCCESS then Inr (TEE_ISOCKET_ERROR_REMOTE_CLOSED, s3)
                 else Inr (TEE_SUCCESS, TEE_Free ab s3)))"

text \<open>
  \<^verbatim>\<open>length\<close> is declared as a pointer and initialised with \<^verbatim>\<open>sizeof(buf)\<close>, so \<^verbatim>\<open>&length\<close> again
  points at the value; the terminator is part of \<^verbatim>\<open>sizeof\<close>. The result of \<^verbatim>\<open>send\<close> is ignored.
\<close>

definition test_message :: string where
  "test_message = ''auditctl -a exit,always  -F success=0 -S kill''"

definition test_tcp_connect ::
    "tee_env \<Rightarrow> u32 \<Rightarrow> params \<Rightarrow> ta_state \<Rightarrow> (TEE_Result \<times> ta_state) c_result" where
  "test_tcp_connect E paramt_types params s =
     (let buf = lit test_message;
          len = of_nat (length buf) :: u64;
          lh = \<lparr>ctx = 0, socket = Some TEE_tcpSocket\<rparr>;
          su = tcp_setup_for 8080 TCP_SERVER in
      case sock_open E (socket lh) su s of
        Inl e \<Rightarrow> Inl e
      | Inr (res, c, s1) \<Rightarrow>
          if res \<noteq> TEE_SUCCESS then Inr (TEE_ISOCKET_ERROR_REMOTE_CLOSED, s1)
          else
            case sock_send E c buf (ucast len) (Timeout_ms 10) s1 of
              Inl e \<Rightarrow> Inl e
            | Inr (_, s2) \<Rightarrow> Inr (res, sock_close c s2))"

definition TA_InvokeCommandEntryPoint ::
    "tee_env \<Rightarrow> u32 \<Rightarrow> u32 \<Rightarrow> params \<Rightarrow> ta_state \<Rightarrow> (TEE_Result \<times> ta_state) c_result" where
  "TA_InvokeCommandEntryPoint E cmd_id param_types params s =
     (if cmd_id = TA_COLLECT_TCP_TEST then test_tcp_connect E param_types params s
      else if cmd_id = TA_COLLECT_SEND_MSG then show_recv_msg E param_types params s
      else Inr (TEE_ERROR_BAD_PARAMETERS, s))"

section \<open>The sender meets its contract\<close>

lemma collect_setup: "tcp_setup_for 8080 TCP_SERVER = receiver_setup"
  by (simp add: tcp_setup_for_def TCP_SERVER_def receiver_setup_def)

interpretation collect: event_log_sender send_event_log
  by unfold_locales
     (simp_all add: send_event_log_def collect_setup sock_open_def sock_send_def sock_close_def)

section \<open>Forwarding a message\<close>

text \<open>A message parameter as the TEE core delivers it: a buffer of at least the stated size.\<close>

definition msg_param :: "TEE_Param \<Rightarrow> char list \<Rightarrow> bool" where
  "msg_param p b \<longleftrightarrow> memref_buffer p = Some b \<and> unat (memref_size p) \<le> length b \<and> unat (memref_size p) < 2 ^ 32"

definition msg_bytes :: "TEE_Param \<Rightarrow> char list \<Rightarrow> char list" where
  "msg_bytes p b = take (unat (memref_size p)) b"

lemma ucast_size: "unat n < 2 ^ 32 \<Longrightarrow> unat (ucast n :: u32) = unat n" for n :: u64
  by (simp add: unsigned_ucast_eq take_bit_nat_eq_self)

text \<open>The copy of the message that the handler makes in the TA's heap.\<close>

lemma memmove_copies:
  assumes "msg_param p b" and "TEE_Malloc E (memref_size p) s = (Some a, s1)"
  obtains s2 where "TEE_MemMove (Some a) (memref_buffer p) (memref_size p) s1 = Inr s2"
    and "heap_bytes (Some a) s2 = msg_bytes p b" and "heap s2 = (heap s)(a \<mapsto> msg_bytes p b)"
    and "calls s2 = calls s @ [Ev_malloc (memref_size p) (Some a)]"
proof (cases "memref_size p = 0")
  case True
  with assms show thesis
    by (intro that [of s1])
       (auto simp: TEE_MemMove_def TEE_Malloc_def heap_bytes_def msg_bytes_def Let_def split: option.splits)
next
  case False
  with assms show thesis
    by (intro that [of "s1\<lparr>heap := (heap s1)(a \<mapsto> msg_bytes p b)\<rparr>"])
       (auto simp: TEE_MemMove_def TEE_Malloc_def heap_bytes_def msg_bytes_def memcpy_def msg_param_def
          Let_def split: option.splits)
qed

lemma show_recv_msg_outcome:
  assumes "param_types = TEE_PARAM_TYPES E TEE_PARAM_TYPE_MEMREF_INPUT TEE_PARAM_TYPE_NONE
      TEE_PARAM_TYPE_NONE TEE_PARAM_TYPE_NONE"
    and "msg_param (params 0) b" and "heap_alloc E (calls s) (memref_size (params 0)) = Some a"
  obtains r s' where "show_recv_msg E param_types params s = Inr (r, s')"
    and "r = TEE_SUCCESS \<or> r = TEE_ISOCKET_ERROR_REMOTE_CLOSED"
    and "network (calls s') = network (calls s) @ (if r = TEE_SUCCESS then [msg_bytes (params 0) b] else [])"
    and "heap s' = (if r = TEE_SUCCESS then (heap s)(a := None) else (heap s)(a \<mapsto> msg_bytes (params 0) b))"
    and "n_opened (calls s') - n_opened (calls s) \<le> 1"
    and "r = TEE_SUCCESS \<longrightarrow> n_opened (calls s') = Suc (n_opened (calls s)) \<and>
      n_closed (calls s') = Suc (n_closed (calls s))"
    and "r \<noteq> TEE_SUCCESS \<longrightarrow> n_closed (calls s') = n_closed (calls s)"
proof -
  let ?p = "params 0"
  obtain s1 where m: "TEE_Malloc E (memref_size ?p) s = (Some a, s1)"
    using assms(3) by (simp add: TEE_Malloc_def Let_def)
  obtain s2 where mv: "TEE_MemMove (Some a) (memref_buffer ?p) (memref_size ?p) s1 = Inr s2"
      "heap_bytes (Some a) s2 = msg_bytes ?p b" "heap s2 = (heap s)(a \<mapsto> msg_bytes ?p b)"
      "calls s2 = calls s @ [Ev_malloc (memref_size ?p) (Some a)]"
    by (rule memmove_copies [OF assms(2) m])
  have len: "unat (ucast (memref_size ?p) :: u32) = unat (memref_size ?p)"
    "length (msg_bytes ?p b) = unat (memref_size ?p)"
    using assms(2) by (simp_all add: msg_param_def ucast_size msg_bytes_def)
  obtain r s3 where snd: "send_event_log E (msg_bytes ?p b) (memref_size ?p) s2 = Inr (r, s3)"
      "heap s3 = heap s2"
      "r \<in> {TEE_SUCCESS, TEE_ISOCKET_ERROR_REMOTE_CLOSED, TEE_ISOCKET_ERROR_TIMEOUT}"
      "network (calls s3) = network (calls s2) @ (if r = TEE_SUCCESS then [msg_bytes ?p b] else [])"
      "n_opened (calls s3) = n_opened (calls s2) + (if r = TEE_ISOCKET_ERROR_REMOTE_CLOSED then 0 else 1)"
      "n_closed (calls s3) = n_closed (calls s2) + (if r = TEE_SUCCESS then 1 else 0)"
    by (rule collect.outcome [of "memref_size ?p" "msg_bytes ?p b" E s2]) (simp_all add: len)
  show thesis
  proof (cases "r = TEE_SUCCESS")
    case True
    with assms(1) m mv snd show thesis
      by (intro that [of TEE_SUCCESS "TEE_Free (Some a) s3"])
         (simp_all add: show_recv_msg_def TEE_Free_def)
  next
    case False
    with assms(1) m mv snd show thesis
      by (intro that [of TEE_ISOCKET_ERROR_REMOTE_CLOSED s3]) (auto simp: show_recv_msg_def)
  qed
qed

section \<open>Runs of a session\<close>

text \<open>A client that sends messages one after the other and ignores failed calls.\<close>

definition msg_params :: "char list \<Rightarrow> params" where
  "msg_params m = (\<lambda>_. zero_param)(0 := zero_param\<lparr>memref_buffer := Some m, memref_size := of_nat (length m)\<rparr>)"

fun send_all :: "tee_env \<Rightarrow> char list list \<Rightarrow> ta_state \<Rightarrow> (TEE_Result list \<times> ta_state) c_result" where
  "send_all E [] s = Inr ([], s)"
| "send_all E (m # ms) s =
     (case TA_InvokeCommandEntryPoint E TA_COLLECT_SEND_MSG
             (TEE_PARAM_TYPES E TEE_PARAM_TYPE_MEMREF_INPUT TEE_PARAM_TYPE_NONE TEE_PARAM_TYPE_NONE
               TEE_PARAM_TYPE_NONE) (msg_params m) s of
        Inl e \<Rightarrow> Inl e
      | Inr (r, s') \<Rightarrow>
          (case send_all E ms s' of Inl e \<Rightarrow> Inl e | Inr (rs, s'') \<Rightarrow> Inr (r # rs, s'')))"

lemma msg_params_ok:
  assumes "length m < 2 ^ 32"
  shows "msg_param (msg_params m 0) m" and "msg_bytes (msg_params m 0) m = m"
proof -
  have "unat (of_nat (length m) :: u64) = length m"
    using assms by (simp add: unat_of_nat take_bit_nat_eq_self)
  then show "msg_param (msg_params m 0) m" "msg_bytes (msg_params m 0) m = m"
    using assms by (simp_all add: msg_param_def msg_bytes_def msg_params_def)
qed

text \<open>Services that never fail: every connection, send and allocation succeeds.\<close>

definition reliable :: "tee_env \<Rightarrow> bool" where
  "reliable E \<longleftrightarrow>
     (\<forall>t su. fst (tcp_open E t su) = TEE_SUCCESS) \<and> (\<forall>t c d. tcp_send E t c d = TEE_SUCCESS)"

definition allocating :: "tee_env \<Rightarrow> bool" where
  "allocating E \<longleftrightarrow> (\<forall>t n. heap_alloc E t n \<noteq> None)"

lemma send_one_outcome:
  assumes "allocating E" and "length m < 2 ^ 32"
  obtains r s' where "TA_InvokeCommandEntryPoint E TA_COLLECT_SEND_MSG
      (TEE_PARAM_TYPES E TEE_PARAM_TYPE_MEMREF_INPUT TEE_PARAM_TYPE_NONE TEE_PARAM_TYPE_NONE
        TEE_PARAM_TYPE_NONE) (msg_params m) s = Inr (r, s')"
    and "network (calls s') = network (calls s) @ (if r = TEE_SUCCESS then [m] else [])"
    and "n_closed (calls s') = n_closed (calls s) + (if r = TEE_SUCCESS then 1 else 0)"
proof -
  obtain a where a: "heap_alloc E (calls s) (memref_size (msg_params m 0)) = Some a"
    using assms(1) by (auto simp: allocating_def)
  show thesis
  proof (rule show_recv_msg_outcome [where params = "msg_params m" and E = E and s = s])
    fix r s'
    assume "show_recv_msg E (TEE_PARAM_TYPES E TEE_PARAM_TYPE_MEMREF_INPUT TEE_PARAM_TYPE_NONE
        TEE_PARAM_TYPE_NONE TEE_PARAM_TYPE_NONE) (msg_params m) s = Inr (r, s')"
      "network (calls s') = network (calls s) @ (if r = TEE_SUCCESS then [msg_bytes (msg_params m 0) m] else [])"
      "r = TEE_SUCCESS \<longrightarrow> n_opened (calls s') = Suc (n_opened (calls s)) \<and>
        n_closed (calls s') = Suc (n_closed (calls s))"
      "r \<noteq> TEE_SUCCESS \<longrightarrow> n_closed (calls s') = n_closed (calls s)"
    with msg_params_ok(2) [OF assms(2)] show thesis
      by (intro that [of r s'])
         (simp_all add: TA_InvokeCommandEntryPoint_def TA_COLLECT_SEND_MSG_def TA_COLLECT_TCP_TEST_def)
  qed (use a msg_params_ok(1) [OF assms(2)] in simp_all)
qed

lemma send_all_outcome:
  assumes "allocating E" and "\<forall>m \<in> set ms. length m < 2 ^ 32"
  shows "\<exists>rs s'. send_all E ms s = Inr (rs, s') \<and> length rs = length ms \<and>
    network (calls s') = network (calls s) @ map fst (filter (\<lambda>(m, r). r = TEE_SUCCESS) (zip ms rs)) \<and>
    n_closed (calls s') = n_closed (calls s) + length (filter (\<lambda>r. r = TEE_SUCCESS) rs)"
  using assms(2)
proof (induction ms arbitrary: s)
  case (Cons m ms)
  obtain r s1 where one: "TA_InvokeCommandEntryPoint E TA_COLLECT_SEND_MSG
      (TEE_PARAM_TYPES E TEE_PARAM_TYPE_MEMREF_INPUT TEE_PARAM_TYPE_NONE TEE_PARAM_TYPE_NONE
        TEE_PARAM_TYPE_NONE) (msg_params m) s = Inr (r, s1)"
      "network (calls s1) = network (calls s) @ (if r = TEE_SUCCESS then [m] else [])"
      "n_closed (calls s1) = n_closed (calls s) + (if r = TEE_SUCCESS then 1 else 0)"
    by (rule send_one_outcome [OF assms(1)]) (use Cons.prems in auto)
  obtain rs s2 where rest: "send_all E ms s1 = Inr (rs, s2)" "length rs = length ms"
      "network (calls s2) = network (calls s1) @ map fst (filter (\<lambda>(m, r). r = TEE_SUCCESS) (zip ms rs))"
      "n_closed (calls s2) = n_closed (calls s1) + length (filter (\<lambda>r. r = TEE_SUCCESS) rs)"
    using Cons.IH [of s1] Cons.prems by auto
  from one rest show ?case by (intro exI [of _ "r # rs"] exI [of _ s2]) simp
qed simp

section \<open>Properties\<close>

lemma reliable_open:
  assumes "reliable E"
  obtains c where "tcp_open E t su = (TEE_SUCCESS, c)"
proof -
  have "fst (tcp_open E t su) = TEE_SUCCESS" using assms by (simp add: reliable_def)
  then show thesis by (cases "tcp_open E t su") (auto intro: that)
qed

lemma send_one_reliable:
  assumes "allocating E" and "reliable E" and "length m < 2 ^ 32"
  shows "\<exists>s'. TA_InvokeCommandEntryPoint E TA_COLLECT_SEND_MSG (TEE_PARAM_TYPES E
      TEE_PARAM_TYPE_MEMREF_INPUT TEE_PARAM_TYPE_NONE TEE_PARAM_TYPE_NONE TEE_PARAM_TYPE_NONE)
      (msg_params m) s = Inr (TEE_SUCCESS, s') \<and>
    n_opened (calls s') = Suc (n_opened (calls s)) \<and> n_closed (calls s') = Suc (n_closed (calls s))"
proof -
  let ?p = "msg_params m 0"
  obtain a where a: "heap_alloc E (calls s) (memref_size ?p) = Some a"
    using assms(1) by (auto simp: allocating_def)
  obtain s1 where m: "TEE_Malloc E (memref_size ?p) s = (Some a, s1)"
    using a by (simp add: TEE_Malloc_def Let_def)
  obtain s2 where mv: "TEE_MemMove (Some a) (memref_buffer ?p) (memref_size ?p) s1 = Inr s2"
      "heap_bytes (Some a) s2 = m" "calls s2 = calls s @ [Ev_malloc (memref_size ?p) (Some a)]"
    using msg_params_ok(2) [OF assms(3)] by (metis memmove_copies [OF msg_params_ok(1) [OF assms(3)] m])
  have len: "unat (ucast (memref_size ?p) :: u32) \<le> length m"
    using msg_params_ok [OF assms(3)] by (simp add: msg_param_def ucast_size)
  obtain c where op: "tcp_open E (calls s2) receiver_setup = (TEE_SUCCESS, c)"
    by (rule reliable_open [OF assms(2)])
  have "tcp_send E (calls s2 @ [Ev_open receiver_setup TEE_SUCCESS c]) c
      (take (unat (ucast (memref_size ?p) :: u32)) m) = TEE_SUCCESS"
    using assms(2) by (simp add: reliable_def)
  from collect.sent [OF op len refl this] m mv show ?thesis
    by (auto simp: TA_InvokeCommandEntryPoint_def TA_COLLECT_SEND_MSG_def TA_COLLECT_TCP_TEST_def
        show_recv_msg_def TEE_Free_def)
qed

lemma send_all_reliable:
  assumes "allocating E" and "reliable E" and "\<forall>m \<in> set ms. length m < 2 ^ 32"
  shows "\<exists>rs s'. send_all E ms s = Inr (rs, s') \<and> set rs \<subseteq> {TEE_SUCCESS} \<and>
    n_opened (calls s') = n_opened (calls s) + length ms \<and> n_closed (calls s') = n_closed (calls s) + length ms"
  using assms(3)
proof (induction ms arbitrary: s)
  case (Cons m ms)
  obtain s1 where "TA_InvokeCommandEntryPoint E TA_COLLECT_SEND_MSG (TEE_PARAM_TYPES E
      TEE_PARAM_TYPE_MEMREF_INPUT TEE_PARAM_TYPE_NONE TEE_PARAM_TYPE_NONE TEE_PARAM_TYPE_NONE)
      (msg_params m) s = Inr (TEE_SUCCESS, s1)"
    "n_opened (calls s1) = Suc (n_opened (calls s))" "n_closed (calls s1) = Suc (n_closed (calls s))"
    using send_one_reliable [OF assms(1,2), of m s] Cons.prems by auto
  with Cons.IH [of s1] Cons.prems show ?case by auto
qed simp





text \<open>
  The failure path of \<^verbatim>\<open>show_recv_msg\<close> leaks. When the connection opens but the send
  fails, the call returns without freeing the heap copy of the message and without closing
  the socket it opened.
\<close>

theorem collect_send_failure_leaks:
  assumes "param_types = TEE_PARAM_TYPES E TEE_PARAM_TYPE_MEMREF_INPUT TEE_PARAM_TYPE_NONE
      TEE_PARAM_TYPE_NONE TEE_PARAM_TYPE_NONE"
    and "msg_param (params 0) b" and "heap_alloc E (calls s) (memref_size (params 0)) = Some a"
    and "\<And>t su. fst (tcp_open E t su) = TEE_SUCCESS" and "\<And>t c d. tcp_send E t c d \<noteq> TEE_SUCCESS"
  shows "\<exists>s'. show_recv_msg E param_types params s = Inr (TEE_ISOCKET_ERROR_REMOTE_CLOSED, s') \<and>
    heap s' = (heap s)(a \<mapsto> msg_bytes (params 0) b) \<and>
    n_opened (calls s') = Suc (n_opened (calls s)) \<and> n_closed (calls s') = n_closed (calls s)"
proof -
  let ?p = "params 0"
  obtain s1 where m: "TEE_Malloc E (memref_size ?p) s = (Some a, s1)"
    using assms(3) by (simp add: TEE_Malloc_def Let_def)
  obtain s2 where mv: "TEE_MemMove (Some a) (memref_buffer ?p) (memref_size ?p) s1 = Inr s2"
      "heap_bytes (Some a) s2 = msg_bytes ?p b" "heap s2 = (heap s)(a \<mapsto> msg_bytes ?p b)"
      "calls s2 = calls s @ [Ev_malloc (memref_size ?p) (Some a)]"
    by (rule memmove_copies [OF assms(2) m])
  have len: "unat (ucast (memref_size ?p) :: u32) \<le> length (msg_bytes ?p b)"
    using assms(2) by (simp add: msg_param_def ucast_size msg_bytes_def)
  obtain c where "tcp_open E (calls s2) receiver_setup = (TEE_SUCCESS, c)"
    using assms(4) [of "calls s2" receiver_setup] by (cases "tcp_open E (calls s2) receiver_setup") simp
  from collect.unsent [OF this len refl refl assms(5)] obtain r s3 where
      "send_event_log E (msg_bytes ?p b) (memref_size ?p) s2 = Inr (TEE_ISOCKET_ERROR_TIMEOUT, s3)"
      "heap s3 = heap s2" "calls s3 = calls s2 @ [Ev_open receiver_setup TEE_SUCCESS c, r]" "\<not> closes r" "\<not> opens r"
    by force
  with assms(1) m mv show ?thesis by (simp add: show_recv_msg_def)
qed

theorem collect_send_failure_leaks_witness:
  "\<exists>s'. show_recv_msg (demo_env\<lparr>tcp_send := (\<lambda>t c d. TEE_ERROR_GENERIC)\<rparr>)
      (demo_types TEE_PARAM_TYPE_MEMREF_INPUT TEE_PARAM_TYPE_NONE TEE_PARAM_TYPE_NONE TEE_PARAM_TYPE_NONE)
      (msg_params ''log'') ta_init = Inr (TEE_ISOCKET_ERROR_REMOTE_CLOSED, s') \<and>
    heap s' = (heap ta_init)(0 \<mapsto> msg_bytes (msg_params ''log'' 0) ''log'') \<and>
    n_opened (calls s') = Suc (n_opened (calls ta_init)) \<and> n_closed (calls s') = n_closed (calls ta_init)"
  by (rule collect_send_failure_leaks)
     (simp_all add: demo_env_def msg_params_ok ta_init_def)

text \<open>
  The socket that \<^verbatim>\<open>TA_OpenSessionEntryPoint\<close> opens is never closed: its handle is
  overwritten by the first message, and after any number of successfully forwarded messages
  and the end of the session exactly one more connection was opened than closed.
\<close>

theorem collect_session_socket_leaks:
  assumes "allocating E" and "reliable E" and "\<forall>m \<in> set ms. length m < 2 ^ 32"
  shows "\<exists>s1 rs s2. TA_OpenSessionEntryPoint E (TEE_PARAM_TYPES E TEE_PARAM_TYPE_NONE TEE_PARAM_TYPE_NONE
        TEE_PARAM_TYPE_NONE TEE_PARAM_TYPE_NONE) ta_init = Inr (TEE_SUCCESS, s1) \<and>
    send_all E ms s1 = Inr (rs, s2) \<and> set rs \<subseteq> {TEE_SUCCESS} \<and>
    n_opened (calls (TA_CloseSessionEntryPoint s2)) = Suc (n_closed (calls (TA_CloseSessionEntryPoint s2)))"
proof -
  obtain c where "tcp_open E (calls ta_init) receiver_setup = (TEE_SUCCESS, c)"
    by (rule reliable_open [OF assms(2)])
  then obtain s1 where "TA_OpenSessionEntryPoint E (TEE_PARAM_TYPES E TEE_PARAM_TYPE_NONE TEE_PARAM_TYPE_NONE
        TEE_PARAM_TYPE_NONE TEE_PARAM_TYPE_NONE) ta_init = Inr (TEE_SUCCESS, s1)"
      "calls s1 = [Ev_open receiver_setup TEE_SUCCESS c]"
    by (simp add: TA_OpenSessionEntryPoint_def collect_setup sock_open_def ta_init_def)
  with send_all_reliable [OF assms, of s1] show ?thesis by (auto simp: TA_CloseSessionEntryPoint_def)
qed

theorem collect_session_socket_leaks_witness:
  "\<exists>s1 rs s2. TA_OpenSessionEntryPoint demo_env (TEE_PARAM_TYPES demo_env TEE_PARAM_TYPE_NONE
        TEE_PARAM_TYPE_NONE TEE_PARAM_TYPE_NONE TEE_PARAM_TYPE_NONE) ta_init = Inr (TEE_SUCCESS, s1) \<and>
    send_all demo_env [''a''] s1 = Inr (rs, s2) \<and> set rs \<subseteq> {TEE_SUCCESS} \<and>
    n_opened (calls (TA_CloseSessionEntryPoint s2)) = Suc (n_closed (calls (TA_CloseSessionEntryPoint s2)))"
  by (rule collect_session_socket_leaks) (simp_all add: allocating_def reliable_def demo_env_def)

text \<open>
  An allocation failure is not checked: with no heap left, a non-empty message makes the
  handler copy to the NULL pointer, which faults the TA.
\<close>

theorem collect_malloc_failure_faults:
  assumes "param_types = TEE_PARAM_TYPES E TEE_PARAM_TYPE_MEMREF_INPUT TEE_PARAM_TYPE_NONE
      TEE_PARAM_TYPE_NONE TEE_PARAM_TYPE_NONE"
    and "heap_alloc E (calls s) (memref_size (params 0)) = None" and "memref_size (params 0) \<noteq> 0"
  shows "TA_InvokeCommandEntryPoint E TA_COLLECT_SEND_MSG param_types params s = Inl Null_dereference"
  using assms
  by (simp add: TA_InvokeCommandEntryPoint_def TA_COLLECT_SEND_MSG_def TA_COLLECT_TCP_TEST_def
      show_recv_msg_def TEE_Malloc_def TEE_MemMove_def)

theorem collect_malloc_failure_faults_witness:
  "TA_InvokeCommandEntryPoint (demo_env\<lparr>heap_alloc := (\<lambda>t n. None)\<rparr>) TA_COLLECT_SEND_MSG
     (demo_types TEE_PARAM_TYPE_MEMREF_INPUT TEE_PARAM_TYPE_NONE TEE_PARAM_TYPE_NONE TEE_PARAM_TYPE_NONE)
     (msg_params ''log'') ta_init = Inl Null_dereference"
  by (rule collect_malloc_failure_faults) (simp_all add: demo_env_def msg_params_def)

text \<open>
  The command dispatch rejects what it does not know and never touches the state then:
  a command other than 0 and 1, a message command with other parameter types and a session
  with parameters all return \<^verbatim>\<open>TEE_ERROR_BAD_PARAMETERS\<close> in an unchanged state.
\<close>

theorem collect_rejects_bad_calls:
  "(cmd \<notin> {0, 1} \<longrightarrow> TA_InvokeCommandEntryPoint E cmd ty params s = Inr (TEE_ERROR_BAD_PARAMETERS, s)) \<and>
   (ty \<noteq> TEE_PARAM_TYPES E TEE_PARAM_TYPE_MEMREF_INPUT TEE_PARAM_TYPE_NONE TEE_PARAM_TYPE_NONE
       TEE_PARAM_TYPE_NONE \<longrightarrow>
     TA_InvokeCommandEntryPoint E TA_COLLECT_SEND_MSG ty params s = Inr (TEE_ERROR_BAD_PARAMETERS, s)) \<and>
   (ty \<noteq> TEE_PARAM_TYPES E TEE_PARAM_TYPE_NONE TEE_PARAM_TYPE_NONE TEE_PARAM_TYPE_NONE TEE_PARAM_TYPE_NONE \<longrightarrow>
     TA_OpenSessionEntryPoint E ty s = Inr (TEE_ERROR_BAD_PARAMETERS, s))"
  by (simp add: TA_InvokeCommandEntryPoint_def TA_COLLECT_SEND_MSG_def TA_COLLECT_TCP_TEST_def
      show_recv_msg_def TA_OpenSessionEntryPoint_def Let_def)

theorem collect_rejects_bad_calls_witness:
  "TA_InvokeCommandEntryPoint demo_env 7 0 (msg_params ''log'') ta_init = Inr (TEE_ERROR_BAD_PARAMETERS, ta_init)"
  using collect_rejects_bad_calls [of 7 demo_env 0 "msg_params ''log''" ta_init] by simp

text \<open>
  The connection test sends the 46 bytes of its command string, terminator included, and
  reports success whenever the connection opened, even if the send failed.
\<close>

theorem collect_tcp_test_ignores_send:
  assumes "tcp_open E (calls s) receiver_setup = (TEE_SUCCESS, c)"
  shows "\<exists>s' r. TA_InvokeCommandEntryPoint E TA_COLLECT_TCP_TEST ty params s = Inr (TEE_SUCCESS, s') \<and>
    calls s' = calls s @ [Ev_open receiver_setup TEE_SUCCESS c,
      Ev_send c (lit test_message) (Timeout_ms 10) r, Ev_close c] \<and>
    length (lit test_message) = 46"
  using assms
  by (simp add: TA_InvokeCommandEntryPoint_def TA_COLLECT_TCP_TEST_def test_tcp_connect_def collect_setup
      sock_open_def sock_send_def sock_close_def test_message_def lit_def Let_def)

theorem collect_tcp_test_ignores_send_witness:
  "\<exists>s' r. TA_InvokeCommandEntryPoint (demo_env\<lparr>tcp_send := (\<lambda>t c d. TEE_ERROR_GENERIC)\<rparr>) TA_COLLECT_TCP_TEST
      0 (msg_params []) ta_init = Inr (TEE_SUCCESS, s') \<and>
    calls s' = calls ta_init @ [Ev_open receiver_setup TEE_SUCCESS 0,
      Ev_send 0 (lit test_message) (Timeout_ms 10) r, Ev_close 0] \<and> length (lit test_message) = 46"
  by (rule collect_tcp_test_ignores_send) (simp add: demo_env_def ta_init_def)

end
