(* ===== verification/Ta_Kernel_Integrity.thy ===== *)
theory Ta_Kernel_Integrity
  imports Gp_Api
begin

text \<open>
  The kernel integrity TA, \<^verbatim>\<open>src/qemu/optee_examples/kernel_integrity/ta/kernel_integrity_ta.c\<close>:
  on command it asks the memory introspection pseudo TA for a digest and sends the text it
  gets back to the log receiver. The pseudo TA is reached through the session calls of
  \<^verbatim>\<open>Gp_Api\<close>; the composition with its model is in the root theory.
\<close>

section \<open>Constants\<close>

definition TA_KERNEL_INTEGRITY_UUID :: TEE_UUID where
  "TA_KERNEL_INTEGRITY_UUID =
     (0xd1dd57b6, 0x0b2b, 0x4355, [0xb4, 0x0c, 0x0b, 0x0c, 0x7e, 0xf7, 0x02, 0xd2])"

definition TA_KERNEL_INTEGRITY_CMD_INC_VALUE :: u32 where "TA_KERNEL_INTEGRITY_CMD_INC_VALUE = 0"
definition TA_KERNEL_INTEGRITY_CMD_DEC_VALUE :: u32 where "TA_KERNEL_INTEGRITY_CMD_DEC_VALUE = 1"

text \<open>The TA's own copy of the pseudo TA's header.\<close>

definition PTA_MEMORY_INTROSPECTION_UUID :: TEE_UUID where
  "PTA_MEMORY_INTROSPECTION_UUID =
     (0xf323fa19, 0x183b, 0x4d83, [0xab, 0xdd, 0x3d, 0x04, 0x59, 0xe0, 0xf7, 0x11])"

definition PTA_CMD_GET_DEVICES :: u32 where "PTA_CMD_GET_DEVICES = 0"
definition PTA_CMD_GET_DEVICES_SUPP :: u32 where "PTA_CMD_GET_DEVICES_SUPP = 1"

definition TA_UUID :: TEE_UUID where "TA_UUID = TA_KERNEL_INTEGRITY_UUID"
definition TA_STACK_SIZE :: nat where "TA_STACK_SIZE = 2 * 1024"
definition TA_DATA_SIZE :: nat where "TA_DATA_SIZE = 32 * 1024"

definition TCP_SERVER :: string where "TCP_SERVER = ''receiver''"

section \<open>Entry points and operations\<close>

definition TA_CreateEntryPoint :: "ta_state \<Rightarrow> TEE_Result \<times> ta_state" where
  "TA_CreateEntryPoint s = (TEE_SUCCESS, s)"

definition TA_DestroyEntryPoint :: "ta_state \<Rightarrow> ta_state" where
  "TA_DestroyEntryPoint s = s"

definition TA_OpenSessionEntryPoint :: "tee_env \<Rightarrow> u32 \<Rightarrow> ta_state \<Rightarrow> TEE_Result \<times> ta_state" where
  "TA_OpenSessionEntryPoint E param_types s =
     (let exp_param_types = TEE_PARAM_TYPES E TEE_PARAM_TYPE_NONE TEE_PARAM_TYPE_NONE
                              TEE_PARAM_TYPE_NONE TEE_PARAM_TYPE_NONE in
      if param_types \<noteq> exp_param_types then (TEE_ERROR_BAD_PARAMETERS, s) else (TEE_SUCCESS, s))"

definition TA_CloseSessionEntryPoint :: "ta_state \<Rightarrow> ta_state" where
  "TA_CloseSessionEntryPoint s = s"

text \<open>As in TA-Collect, \<^verbatim>\<open>&length\<close> gives the socket service the low 32 bits of the length.\<close>

definition send_event_log ::
    "tee_env \<Rightarrow> char list \<Rightarrow> u64 \<Rightarrow> ta_state \<Rightarrow> (TEE_Result \<times> ta_state) c_result" where
  "send_event_log E ab len s =
     (let setup = \<lparr>ipVersion = TEE_IP_VERSION_4, server_port = 8080, server_addr = TCP_SERVER\<rparr>;
          s1 = s\<lparr>h := (h s)\<lparr>socket := Some TEE_tcpSocket\<rparr>\<rparr> in
      case sock_open E (socket (h s1)) setup s1 of
        Inl e \<Rightarrow> Inl e
      | Inr (res, c, s2) \<Rightarrow>
          (let s3 = s2\<lparr>h := (h s2)\<lparr>ctx := c\<rparr>\<rparr> in
           if res \<noteq> TEE_SUCCESS then Inr (TEE_ISOCKET_ERROR_REMOTE_CLOSED, s3)
           else
             case sock_send E (ctx (h s3)) ab (ucast len) TEE_TIMEOUT_INFINITE s3 of
               Inl e \<Rightarrow> Inl e
             | Inr (res2, s4) \<Rightarrow>
                 if res2 \<noteq> TEE_SUCCESS then Inr (TEE_ISOCKET_ERROR_TIMEOUT, s4)
                 else Inr (TEE_SUCCESS, sock_close (ctx (h s4)) s4)))"

text \<open>
  \<^verbatim>\<open>pta_call\<close> is not called by the file: it hands the pseudo TA a caller's buffer. The result
  here is the buffer afterwards; on a failed open nothing is returned to its caller.
\<close>

definition pta_call ::
    "tee_env \<Rightarrow> char list option \<Rightarrow> u32 \<Rightarrow> ta_state \<Rightarrow> (char list option \<times> ta_state) c_result" where
  "pta_call E buf len s =
     (let param_types = TEE_PARAM_TYPES E TEE_PARAM_TYPE_VALUE_INOUT TEE_PARAM_TYPE_MEMREF_OUTPUT
                          TEE_PARAM_TYPE_NONE TEE_PARAM_TYPE_NONE;
          params = (\<lambda>_. zero_param)(1 := zero_param\<lparr>memref_buffer := buf, memref_size := ucast len\<rparr>);
          (res, sess, s1) = TEE_OpenTASession E PTA_MEMORY_INTROSPECTION_UUID s in
      if res \<noteq> TEE_SUCCESS then Inr (buf, s1)
      else
        case TEE_InvokeTACommand E sess PTA_CMD_GET_DEVICES_SUPP param_types params s1 of
          Inl e \<Rightarrow> Inl e
        | Inr (_, params', s2) \<Rightarrow> Inr (memref_buffer (params' 1), TEE_CloseTASession sess s2))"

text \<open>The results of the pseudo TA's command and of \<^verbatim>\<open>send_event_log\<close> are ignored.\<close>

definition pta_invoke ::
    "tee_env \<Rightarrow> u32 \<Rightarrow> params \<Rightarrow> ta_state \<Rightarrow> (TEE_Result \<times> params \<times> ta_state) c_result" where
  "pta_invoke E parama_types params s =
     (let exp_parama_types = TEE_PARAM_TYPES E TEE_PARAM_TYPE_VALUE_INOUT TEE_PARAM_TYPE_MEMREF_OUTPUT
                               TEE_PARAM_TYPE_NONE TEE_PARAM_TYPE_NONE in
      if parama_types \<noteq> exp_parama_types then Inr (TEE_ERROR_BAD_PARAMETERS, params, s)
      else
        let (res, sess, s1) = TEE_OpenTASession E PTA_MEMORY_INTROSPECTION_UUID s in
        if res \<noteq> TEE_SUCCESS then Inr (res, params, s1)
        else
          case TEE_InvokeTACommand E sess PTA_CMD_GET_DEVICES_SUPP parama_types params s1 of
            Inl e \<Rightarrow> Inl e
          | Inr (_, params', s2) \<Rightarrow>
              (let s3 = TEE_CloseTASession sess s2 in
               case memref_buffer (params' 1) of
                 None \<Rightarrow> Inl Null_dereference
               | Some hash_result \<Rightarrow>
                   (case strlen hash_result of
                      Inl e \<Rightarrow> Inl e
                    | Inr hash_length \<Rightarrow>
                        (case send_event_log E hash_result (of_nat hash_length) s3 of
                           Inl e \<Rightarrow> Inl e
                         | Inr (_, s4) \<Rightarrow> Inr (TEE_SUCCESS, params', s4)))))"

definition TA_InvokeCommandEntryPoint ::
    "tee_env \<Rightarrow> u32 \<Rightarrow> u32 \<Rightarrow> params \<Rightarrow> ta_state \<Rightarrow> (TEE_Result \<times> params \<times> ta_state) c_result" where
  "TA_InvokeCommandEntryPoint E cmd_id param_types params s =
     (if cmd_id = TA_KERNEL_INTEGRITY_CMD_INC_VALUE then pta_invoke E param_types params s
      else Inr (TEE_ERROR_BAD_PARAMETERS, params, s))"

section \<open>The sender meets its contract\<close>

interpretation integrity: event_log_sender send_event_log
  by unfold_locales
     (simp_all add: send_event_log_def receiver_setup_def TCP_SERVER_def sock_open_def sock_send_def sock_close_def)

section \<open>Properties\<close>

text \<open>The parameter types the command expects, and the calls of a complete session with the pseudo TA.\<close>

definition hash_types :: "tee_env \<Rightarrow> u32" where
  "hash_types E = TEE_PARAM_TYPES E TEE_PARAM_TYPE_VALUE_INOUT TEE_PARAM_TYPE_MEMREF_OUTPUT
     TEE_PARAM_TYPE_NONE TEE_PARAM_TYPE_NONE"

definition pta_session :: "nat \<Rightarrow> u32 \<Rightarrow> TEE_Result \<Rightarrow> tee_call list" where
  "pta_session sess ty r =
     [Ev_open_session PTA_MEMORY_INTROSPECTION_UUID TEE_SUCCESS sess,
      Ev_invoke sess PTA_CMD_GET_DEVICES_SUPP ty r, Ev_close_session sess]"

lemma network_pta_session [simp]: "network (pta_session sess ty r) = []"
  by (simp add: pta_session_def)

definition answers_with ::
    "tee_env \<Rightarrow> ta_state \<Rightarrow> nat \<Rightarrow> params \<Rightarrow> TEE_Result \<Rightarrow> params \<Rightarrow> bool" where
  "answers_with E s sess ps r ps' \<longleftrightarrow>
     session_open E (calls s) PTA_MEMORY_INTROSPECTION_UUID = (TEE_SUCCESS, sess) \<and>
     session_invoke E (calls s @ [Ev_open_session PTA_MEMORY_INTROSPECTION_UUID TEE_SUCCESS sess]) sess
       PTA_CMD_GET_DEVICES_SUPP (hash_types E) ps = Inr (r, ps')"

lemma pta_invoke_answered:
  assumes "answers_with E s sess ps r ps'" and "memref_buffer (ps' 1) = Some b"
  shows "TA_InvokeCommandEntryPoint E TA_KERNEL_INTEGRITY_CMD_INC_VALUE (hash_types E) ps s =
    (case strlen b of
       Inl e \<Rightarrow> Inl e
     | Inr n \<Rightarrow>
         (case send_event_log E b (of_nat n) (s\<lparr>calls := calls s @ pta_session sess (hash_types E) r\<rparr>) of
            Inl e \<Rightarrow> Inl e
          | Inr (_, s4) \<Rightarrow> Inr (TEE_SUCCESS, ps', s4)))"
  using assms
  by (cases "strlen b")
     (simp_all add: TA_InvokeCommandEntryPoint_def pta_invoke_def answers_with_def hash_types_def pta_session_def
      TEE_OpenTASession_def TEE_InvokeTACommand_def TEE_CloseTASession_def Let_def)

lemma pta_invoke_sends:
  assumes "answers_with E s sess ps r ps'" and "memref_buffer (ps' 1) = Some b"
    and "NUL \<in> set b" and "length b < 2 ^ 32"
  obtains q s' ev where "TA_InvokeCommandEntryPoint E TA_KERNEL_INTEGRITY_CMD_INC_VALUE (hash_types E) ps s =
      Inr (TEE_SUCCESS, ps', s')"
    and "calls s' = calls s @ pta_session sess (hash_types E) r @ ev"
    and "network ev = (if q = TEE_SUCCESS then [cstr b] else [])" and "n_closed ev = (if q = TEE_SUCCESS then 1 else 0)"
proof -
  let ?s3 = "s\<lparr>calls := calls s @ pta_session sess (hash_types E) r\<rparr>"
  let ?n = "of_nat (length (cstr b)) :: u64"
  have less: "length (cstr b) < 2 ^ 32" using cstr_length_less [OF assms(3)] assms(4) by simp
  then have n: "unat (ucast ?n :: u32) = length (cstr b)"
    by (simp add: unsigned_ucast_eq unat_of_nat take_bit_nat_eq_self)
  obtain q s' ev where snd: "send_event_log E b ?n ?s3 = Inr (q, s')" "calls s' = calls ?s3 @ ev"
      "network ev = (if q = TEE_SUCCESS then [take (unat (ucast ?n :: u32)) b] else [])"
      "n_closed ev = (if q = TEE_SUCCESS then 1 else 0)"
    by (rule integrity.outcome_events [of ?n b E ?s3])
       (use n cstr_length_less [OF assms(3)] in simp_all)
  have "take (length (cstr b)) b = cstr b" using cstr_prefix [of b] by simp
  with snd n show thesis
    by (intro that [of s' ev q]) (simp_all add: pta_invoke_answered [OF assms(1,2)] strlen_terminated [OF assms(3)])
qed


definition answering_env :: "char list \<Rightarrow> tee_env" where
  "answering_env b = demo_env\<lparr>session_invoke := (\<lambda>t sess cmd ty ps.
     Inr (TEE_SUCCESS, ps(1 := (ps 1)\<lparr>memref_buffer := Some b\<rparr>)))\<rparr>"

lemma answering_env_answers:
  "answers_with (answering_env b) ta_init 0 ps TEE_SUCCESS (ps(1 := (ps 1)\<lparr>memref_buffer := Some b\<rparr>))"
  by (simp add: answers_with_def answering_env_def demo_env_def ta_init_def)


text \<open>
  The length of the digest text is taken with \<^verbatim>\<open>strlen\<close>: when the pseudo TA leaves the
  buffer without a terminator, the TA reads past its end. The pseudo TA writes 64 digits and
  no terminator, so a 64-byte buffer is such a case.
\<close>

theorem integrity_unterminated_overreads:
  assumes "answers_with E s sess ps r ps'" and "memref_buffer (ps' 1) = Some b" and "NUL \<notin> set b"
  shows "TA_InvokeCommandEntryPoint E TA_KERNEL_INTEGRITY_CMD_INC_VALUE (hash_types E) ps s =
    Inl Out_of_bounds_read"
  by (simp add: pta_invoke_answered [OF assms(1,2)] strlen_unterminated [OF assms(3)])

theorem integrity_unterminated_overreads_witness:
  "TA_InvokeCommandEntryPoint (answering_env (replicate 64 (CHR ''a''))) TA_KERNEL_INTEGRITY_CMD_INC_VALUE
     (hash_types (answering_env (replicate 64 (CHR ''a'')))) (out_params 64) ta_init = Inl Out_of_bounds_read"
  by (rule integrity_unterminated_overreads [OF answering_env_answers, where b = "replicate 64 (CHR ''a'')"]) simp_all

text \<open>
  What the TA refuses: any command but 0, the command with other parameter types and a
  session with parameters are answered with \<^verbatim>\<open>TEE_ERROR_BAD_PARAMETERS\<close>; if the pseudo TA's
  session does not open, its result is returned; in none of these cases is anything invoked
  or sent, and the caller's parameters are unchanged.
\<close>

theorem integrity_rejects_bad_calls:
  "(cmd \<noteq> 0 \<longrightarrow> TA_InvokeCommandEntryPoint E cmd ty ps s = Inr (TEE_ERROR_BAD_PARAMETERS, ps, s)) \<and>
   (ty \<noteq> hash_types E \<longrightarrow> TA_InvokeCommandEntryPoint E cmd ty ps s = Inr (TEE_ERROR_BAD_PARAMETERS, ps, s)) \<and>
   (ty \<noteq> TEE_PARAM_TYPES E TEE_PARAM_TYPE_NONE TEE_PARAM_TYPE_NONE TEE_PARAM_TYPE_NONE TEE_PARAM_TYPE_NONE \<longrightarrow>
     TA_OpenSessionEntryPoint E ty s = (TEE_ERROR_BAD_PARAMETERS, s)) \<and>
   (session_open E (calls s) PTA_MEMORY_INTROSPECTION_UUID = (r, sess) \<and> r \<noteq> TEE_SUCCESS \<longrightarrow>
     TA_InvokeCommandEntryPoint E TA_KERNEL_INTEGRITY_CMD_INC_VALUE (hash_types E) ps s =
       Inr (r, ps, s\<lparr>calls := calls s @ [Ev_open_session PTA_MEMORY_INTROSPECTION_UUID r sess]\<rparr>))"
  by (simp add: TA_InvokeCommandEntryPoint_def TA_KERNEL_INTEGRITY_CMD_INC_VALUE_def pta_invoke_def
      hash_types_def TA_OpenSessionEntryPoint_def TEE_OpenTASession_def Let_def)

theorem integrity_rejects_bad_calls_witness:
  "TA_InvokeCommandEntryPoint demo_env 1 0 (out_params 64) ta_init =
     Inr (TEE_ERROR_BAD_PARAMETERS, out_params 64, ta_init)"
  using integrity_rejects_bad_calls [of 1 demo_env 0 "out_params 64" ta_init] by simp

end
