(* ===== verification/Host_Apps.thy ===== *)
theory Host_Apps
  imports Ta_Collect Ta_Kernel_Integrity
begin

text \<open>
  The three normal-world programs, \<^verbatim>\<open>src/qemu/optee_examples/{collect,kernel_integrity,watchdog}/host/main.c\<close>.
  They call the TEE client library, which is not part of the repository: its answers are
  fields of \<^verbatim>\<open>teec_env\<close> and functions of the calls made so far. \<^verbatim>\<open>errx\<close> ends the program with
  exit code 1; the console output is not modelled. The programs are shown to be instances of
  one specification, and their behaviour is proved once for it.
\<close>

section \<open>The client library\<close>

datatype TEEC_Result = TEEC_success | TEEC_failure u32

datatype teec_type =
    TEEC_NONE
  | TEEC_VALUE_INPUT
  | TEEC_VALUE_OUTPUT
  | TEEC_VALUE_INOUT
  | TEEC_MEMREF_TEMP_INPUT
  | TEEC_MEMREF_TEMP_OUTPUT
  | TEEC_MEMREF_TEMP_INOUT

type_synonym teec_types = "teec_type \<times> teec_type \<times> teec_type \<times> teec_type"

record TEEC_Operation =
  paramTypes :: teec_types
  op_params :: params

definition zero_op :: TEEC_Operation where
  "zero_op = \<lparr>paramTypes = (TEEC_NONE, TEEC_NONE, TEEC_NONE, TEEC_NONE), op_params = (\<lambda>_. zero_param)\<rparr>"

datatype hcall =
    H_init TEEC_Result
  | H_open TEE_UUID TEEC_Result
  | H_invoke u32 teec_types TEEC_Result
  | H_close
  | H_finalize

record teec_env =
  TEEC_InitializeContext :: "hcall list \<Rightarrow> TEEC_Result"
  TEEC_OpenSession :: "hcall list \<Rightarrow> TEE_UUID \<Rightarrow> TEEC_Result"
  TEEC_InvokeCommand :: "hcall list \<Rightarrow> TEE_UUID \<Rightarrow> u32 \<Rightarrow> TEEC_Operation \<Rightarrow> TEEC_Result"

section \<open>The programs\<close>

definition collect_main :: "teec_env \<Rightarrow> int \<times> hcall list" where
  "collect_main E =
     (let uuid = TA_INTROSPECTION_UUID; res = TEEC_InitializeContext E []; t1 = [H_init res] in
      if res \<noteq> TEEC_success then (1, t1)
      else
        let res = TEEC_OpenSession E t1 uuid; t2 = t1 @ [H_open uuid res] in
        if res \<noteq> TEEC_success then (1, t2)
        else
          let op1 = zero_op\<lparr>paramTypes := (TEEC_NONE, TEEC_NONE, TEEC_NONE, TEEC_NONE)\<rparr>;
              res = TEEC_InvokeCommand E t2 uuid TA_COLLECT_TCP_TEST op1;
              t3 = t2 @ [H_invoke TA_COLLECT_TCP_TEST (paramTypes op1) res] in
          if res \<noteq> TEEC_success then (1, t3)
          else (0, t3 @ [H_close, H_finalize]))"

text \<open>The operation of the kernel integrity program: a 64-byte zeroed array as output.\<close>

definition integrity_op :: TEEC_Operation where
  "integrity_op =
     (let random_uuid = replicate 64 NUL in
      zero_op\<lparr>paramTypes := (TEEC_VALUE_INOUT, TEEC_MEMREF_TEMP_OUTPUT, TEEC_NONE, TEEC_NONE),
              op_params := (\<lambda>_. zero_param)(0 := zero_param\<lparr>value_a := 42\<rparr>,
                1 := zero_param\<lparr>memref_buffer := Some random_uuid, memref_size := of_nat (length random_uuid)\<rparr>)\<rparr>)"

definition integrity_main :: "teec_env \<Rightarrow> int \<times> hcall list" where
  "integrity_main E =
     (let uuid = TA_KERNEL_INTEGRITY_UUID; res = TEEC_InitializeContext E []; t1 = [H_init res] in
      if res \<noteq> TEEC_success then (1, t1)
      else
        let res = TEEC_OpenSession E t1 uuid; t2 = t1 @ [H_open uuid res] in
        if res \<noteq> TEEC_success then (1, t2)
        else
          let res = TEEC_InvokeCommand E t2 uuid TA_KERNEL_INTEGRITY_CMD_INC_VALUE integrity_op;
              t3 = t2 @ [H_invoke TA_KERNEL_INTEGRITY_CMD_INC_VALUE (paramTypes integrity_op) res] in
          if res \<noteq> TEEC_success then (1, t3)
          else (0, t3 @ [H_close, H_finalize]))"

definition WDT_UUID :: TEE_UUID where
  "WDT_UUID = (0x44c9884e, 0x9e5f, 0x48d9, [0x9b, 0x78, 0x4d, 0x14, 0x1a, 0x2f, 0xec, 0xab])"

definition GPIO_ON :: u32 where "GPIO_ON = 0"
definition GPIO_OFF :: u32 where "GPIO_OFF = 1"
definition TEST_PSEUDO_TA :: u32 where "TEST_PSEUDO_TA = 2"

definition watchdog_main :: "teec_env \<Rightarrow> int \<times> hcall list" where
  "watchdog_main E =
     (let uuid = WDT_UUID; res = TEEC_InitializeContext E []; t1 = [H_init res] in
      if res \<noteq> TEEC_success then (1, t1)
      else
        let res = TEEC_OpenSession E t1 uuid; t2 = t1 @ [H_open uuid res] in
        if res \<noteq> TEEC_success then (1, t2)
        else
          let op1 = zero_op\<lparr>paramTypes := (TEEC_VALUE_OUTPUT, TEEC_NONE, TEEC_NONE, TEEC_NONE)\<rparr>;
              res = TEEC_InvokeCommand E t2 uuid TEST_PSEUDO_TA op1;
              t3 = t2 @ [H_invoke TEST_PSEUDO_TA (paramTypes op1) res] in
          if res \<noteq> TEEC_success then (1, t3)
          else
            let op2 = zero_op\<lparr>paramTypes := (TEEC_VALUE_INPUT, TEEC_NONE, TEEC_NONE, TEEC_NONE)\<rparr>;
                res = TEEC_InvokeCommand E t3 uuid GPIO_ON op2;
                t4 = t3 @ [H_invoke GPIO_ON (paramTypes op2) res] in
            if res \<noteq> TEEC_success then (1, t4)
            else (0, t4 @ [H_close, H_finalize]))"

section \<open>The specification of a host program\<close>

fun invoke_all :: "teec_env \<Rightarrow> TEE_UUID \<Rightarrow> (u32 \<times> TEEC_Operation) list \<Rightarrow> hcall list \<Rightarrow> bool \<times> hcall list" where
  "invoke_all E u [] t = (True, t)"
| "invoke_all E u ((c, opn) # opns) t =
     (let r = TEEC_InvokeCommand E t u c opn; t' = t @ [H_invoke c (paramTypes opn) r]
      in if r = TEEC_success then invoke_all E u opns t' else (False, t'))"

definition host_spec :: "TEE_UUID \<Rightarrow> (u32 \<times> TEEC_Operation) list \<Rightarrow> teec_env \<Rightarrow> int \<times> hcall list" where
  "host_spec u opns E =
     (let r = TEEC_InitializeContext E [] in
      if r \<noteq> TEEC_success then (1, [H_init r])
      else let r' = TEEC_OpenSession E [H_init r] u in
        if r' \<noteq> TEEC_success then (1, [H_init r, H_open u r'])
        else case invoke_all E u opns [H_init r, H_open u r'] of
               (True, t) \<Rightarrow> (0, t @ [H_close, H_finalize])
             | (False, t) \<Rightarrow> (1, t))"

fun failed :: "hcall \<Rightarrow> bool" where
  "failed (H_init r) = (r \<noteq> TEEC_success)"
| "failed (H_open u r) = (r \<noteq> TEEC_success)"
| "failed (H_invoke c ty r) = (r \<noteq> TEEC_success)"
| "failed _ = False"

fun invoked :: "hcall list \<Rightarrow> u32 list" where
  "invoked [] = []"
| "invoked (H_invoke c ty r # t) = c # invoked t"
| "invoked (_ # t) = invoked t"

lemma invoked_append [simp]: "invoked (t @ u) = invoked t @ invoked u"
  by (induction t rule: invoked.induct) simp_all

lemma invoke_all_trace:
  assumes "invoke_all E u opns t = (ok, t')"
  shows "\<exists>v. t' = t @ v \<and> H_close \<notin> set v \<and> H_finalize \<notin> set v \<and>
    (if ok then (\<forall>c \<in> set v. \<not> failed c) \<and> invoked v = map fst opns
     else v \<noteq> [] \<and> failed (last v) \<and> (\<forall>c \<in> set (butlast v). \<not> failed c))"
  using assms
proof (induction E u opns t rule: invoke_all.induct)
  case (2 E u c opn opns t)
  define r where "r = TEEC_InvokeCommand E t u c opn"
  show ?case
  proof (cases "r = TEEC_success")
    case True
    then have "invoke_all E u opns (t @ [H_invoke c (paramTypes opn) r]) = (ok, t')"
      using 2(2) by (simp add: r_def [symmetric])
    from 2(1) [OF r_def refl True this] obtain v where
        "t' = (t @ [H_invoke c (paramTypes opn) r]) @ v" "H_close \<notin> set v" "H_finalize \<notin> set v"
        "if ok then (\<forall>c \<in> set v. \<not> failed c) \<and> invoked v = map fst opns
         else v \<noteq> [] \<and> failed (last v) \<and> (\<forall>c \<in> set (butlast v). \<not> failed c)"
      by blast
    with True show ?thesis by (intro exI [of _ "H_invoke c (paramTypes opn) r # v"]) (auto split: if_splits)
  next
    case False
    with 2(2) show ?thesis
      by (intro exI [of _ "[H_invoke c (paramTypes opn) r]"]) (simp add: r_def [symmetric])
  qed
qed simp

text \<open>
  The protocol of a host program: exit code 0 with every call successful, all commands
  invoked in order and the session closed and the context finalised last; or exit code 1
  right after the first failed call, with neither closed nor finalised.
\<close>

definition follows_protocol :: "u32 list \<Rightarrow> int \<times> hcall list \<Rightarrow> bool" where
  "follows_protocol cmds r \<longleftrightarrow>
     fst r = 0 \<and> (\<forall>c \<in> set (snd r). \<not> failed c) \<and> invoked (snd r) = cmds \<and>
       (\<exists>t. snd r = t @ [H_close, H_finalize] \<and> H_close \<notin> set t \<and> H_finalize \<notin> set t) \<or>
     fst r = 1 \<and> snd r \<noteq> [] \<and> failed (last (snd r)) \<and> (\<forall>c \<in> set (butlast (snd r)). \<not> failed c) \<and>
       H_close \<notin> set (snd r) \<and> H_finalize \<notin> set (snd r)"

locale host_app =
  fixes host_main :: "teec_env \<Rightarrow> int \<times> hcall list" and u :: TEE_UUID and opns :: "(u32 \<times> TEEC_Operation) list"
  assumes main_spec: "host_main E = host_spec u opns E"
begin

lemma protocol: "follows_protocol (map fst opns) (host_main E)"
proof -
  define r where "r = TEEC_InitializeContext E []"
  define r' where "r' = TEEC_OpenSession E [H_init r] u"
  obtain ok t where inv: "invoke_all E u opns [H_init r, H_open u r'] = (ok, t)"
    by (cases "invoke_all E u opns [H_init r, H_open u r']")
  obtain v where v: "t = [H_init r, H_open u r'] @ v" "H_close \<notin> set v" "H_finalize \<notin> set v"
      "if ok then (\<forall>c \<in> set v. \<not> failed c) \<and> invoked v = map fst opns
       else v \<noteq> [] \<and> failed (last v) \<and> (\<forall>c \<in> set (butlast v). \<not> failed c)"
    using invoke_all_trace [OF inv] by blast
  have "host_main E = (if r \<noteq> TEEC_success then (1, [H_init r]) else if r' \<noteq> TEEC_success then (1, [H_init r, H_open u r'])
      else if ok then (0, t @ [H_close, H_finalize]) else (1, t))"
    unfolding main_spec host_spec_def Let_def r_def [symmetric] r'_def [symmetric] inv
    by (simp split: bool.splits)
  with v show ?thesis by (auto simp: follows_protocol_def split: if_splits)
qed

end

interpretation collect_host: host_app collect_main TA_INTROSPECTION_UUID
  "[(TA_COLLECT_TCP_TEST, zero_op\<lparr>paramTypes := (TEEC_NONE, TEEC_NONE, TEEC_NONE, TEEC_NONE)\<rparr>)]"
  by unfold_locales (simp add: collect_main_def host_spec_def Let_def)

interpretation integrity_host: host_app integrity_main TA_KERNEL_INTEGRITY_UUID
  "[(TA_KERNEL_INTEGRITY_CMD_INC_VALUE, integrity_op)]"
  by unfold_locales (simp add: integrity_main_def host_spec_def Let_def)

interpretation watchdog_host: host_app watchdog_main WDT_UUID
  "[(TEST_PSEUDO_TA, zero_op\<lparr>paramTypes := (TEEC_VALUE_OUTPUT, TEEC_NONE, TEEC_NONE, TEEC_NONE)\<rparr>),
    (GPIO_ON, zero_op\<lparr>paramTypes := (TEEC_VALUE_INPUT, TEEC_NONE, TEEC_NONE, TEEC_NONE)\<rparr>)]"
  by unfold_locales (simp add: watchdog_main_def host_spec_def Let_def)

section \<open>Properties\<close>

text \<open>
  C25: the three programs follow the client protocol for every behaviour of the library: exit
  code 0 exactly when every call succeeded, with the commands 0, 0, and 2 then 0 invoked in
  that order and the session and context released at the end; otherwise exit code 1 right
  after the first failed call, with nothing released.
\<close>

theorem host_programs_follow_protocol:
  "follows_protocol [0] (collect_main E) \<and> follows_protocol [0] (integrity_main E) \<and>
   follows_protocol [2, 0] (watchdog_main E)"
  using collect_host.protocol [of E] integrity_host.protocol [of E] watchdog_host.protocol [of E]
  by (simp add: TA_COLLECT_TCP_TEST_def TA_KERNEL_INTEGRITY_CMD_INC_VALUE_def TEST_PSEUDO_TA_def GPIO_ON_def)

end
