(* ===== verification/Core_Api.thy ===== *)
theory Core_Api
  imports Gp_Api
begin

text \<open>
  What the pseudo trusted applications use of the OP-TEE core and of mbed TLS, none of which
  is part of the repository: the state of the MMU, the physical to virtual translation of a
  memory area, the core's virtual memory, device registers, and the incremental message
  digest interface. Each is a field of an environment record that the theorems quantify
  over. Reading an unmapped address is the error \<^verbatim>\<open>Out_of_bounds_read\<close>, where the core would
  take a data abort.
\<close>

section \<open>Memory and devices\<close>

datatype mem_area = MEM_AREA_RAM_NSEC | MEM_AREA_IO_NSEC

datatype io_event = Io_read32 u64 u32 | Io_write32 u64 u32

record core_env =
  cpu_mmu_enabled :: bool
  phys_to_virt :: "u64 \<Rightarrow> mem_area \<Rightarrow> u64"
  mem :: "u64 \<Rightarrow> u8 option"
  io_in :: "io_event list \<Rightarrow> u64 \<Rightarrow> u32"

fun read_mem :: "core_env \<Rightarrow> u64 \<Rightarrow> nat \<Rightarrow> u8 list c_result" where
  "read_mem C a 0 = Inr []"
| "read_mem C a (Suc n) =
     (case mem C a of
        None \<Rightarrow> Inl Out_of_bounds_read
      | Some b \<Rightarrow> (case read_mem C (a + 1) n of Inl e \<Rightarrow> Inl e | Inr bs \<Rightarrow> Inr (b # bs)))"

lemma read_mem_length: "read_mem C a n = Inr bs \<Longrightarrow> length bs = n"
  by (induction C a n arbitrary: bs rule: read_mem.induct) (auto split: option.splits sum.splits)

lemma read_mem_nth: "read_mem C a n = Inr bs \<Longrightarrow> i < n \<Longrightarrow> mem C (a + of_nat i) = Some (bs ! i)"
proof (induction C a n arbitrary: bs i rule: read_mem.induct)
  case (2 C a n)
  then show ?case by (cases i) (auto split: option.splits sum.splits simp: add.assoc)
qed simp

lemma read_mem_iff: "(\<exists>bs. read_mem C a n = Inr bs) \<longleftrightarrow> (\<forall>i < n. mem C (a + of_nat i) \<noteq> None)"
proof (induction C a n rule: read_mem.induct)
  case (2 C a n)
  show ?case
  proof (cases "mem C a")
    case None
    then show ?thesis by (auto intro: exI [of _ 0])
  next
    case (Some b)
    have "(\<forall>i < Suc n. mem C (a + of_nat i) \<noteq> None) \<longleftrightarrow> (\<forall>i < n. mem C (a + 1 + of_nat i) \<noteq> None)"
      using Some by (auto simp: less_Suc_eq_0_disj add.assoc)
    with 2 [OF Some] Some show ?thesis by (auto split: sum.splits)
  qed
qed simp

definition io_read32 :: "core_env \<Rightarrow> u64 \<Rightarrow> io_event list \<Rightarrow> u32 \<times> io_event list" where
  "io_read32 C a t = (let v = io_in C t a in (v, t @ [Io_read32 a v]))"

definition io_write32 :: "u64 \<Rightarrow> u32 \<Rightarrow> io_event list \<Rightarrow> io_event list" where
  "io_write32 a v t = t @ [Io_write32 a v]"

section \<open>Address translation\<close>

text \<open>
  Both pseudo TAs define a \<^verbatim>\<open>nsec_periph_base\<close> for a memory area of their own. What a caller
  may rely on: physical addresses as they are while the MMU is off, the core's translation
  afterwards.
\<close>

definition linear_on :: "core_env \<Rightarrow> mem_area \<Rightarrow> u64 set \<Rightarrow> u64 \<Rightarrow> bool" where
  "linear_on C area S off \<longleftrightarrow> (\<forall>pa \<in> S. phys_to_virt C pa area = pa + off)"

locale address_translation =
  fixes base :: "core_env \<Rightarrow> u64 \<Rightarrow> u64 \<Rightarrow> u64" and area :: mem_area
  assumes mmu_off: "\<not> cpu_mmu_enabled C \<Longrightarrow> base C pa len = pa"
    and mmu_on: "cpu_mmu_enabled C \<Longrightarrow> base C pa len = phys_to_virt C pa area"
begin

lemma distance:
  assumes "linear_on C area S off" and "p \<in> S" and "q \<in> S"
  shows "base C p len - base C q len = p - q"
  using assms by (cases "cpu_mmu_enabled C") (simp_all add: mmu_off mmu_on linear_on_def)

lemma length_irrelevant: "base C pa len = base C pa len'"
  by (cases "cpu_mmu_enabled C") (simp_all add: mmu_off mmu_on)

end

section \<open>Message digests\<close>

datatype md_type = MBEDTLS_MD_SHA256

text \<open>
  The digest context is of a type of its own. \<^verbatim>\<open>md_finish\<close> is None when mbed TLS reports an
  error and leaves the output array unwritten.
\<close>

record 'c md_env =
  md_init :: 'c
  md_setup :: "'c \<Rightarrow> md_type \<Rightarrow> int \<Rightarrow> 'c"
  md_starts :: "'c \<Rightarrow> 'c"
  md_update :: "'c \<Rightarrow> u8 list \<Rightarrow> int \<times> 'c"
  md_finish :: "'c \<Rightarrow> u8 list option"

text \<open>
  The documented behaviour of the sequence setup, starts, update, finish for SHA-256: the
  update reports no error and the digest of the updated data is written, 32 bytes.
\<close>

definition sha256_provider :: "'c md_env \<Rightarrow> (u8 list \<Rightarrow> u8 list) \<Rightarrow> bool" where
  "sha256_provider M H \<longleftrightarrow>
     (\<forall>p. length (H p) = 32 \<and>
        (let c = md_starts M (md_setup M (md_init M) MBEDTLS_MD_SHA256 0)
         in fst (md_update M c p) = 0 \<and> md_finish M (snd (md_update M c p)) = Some (H p)))"

end
