(* ===== verification/Pta_Introspection.thy ===== *)
theory Pta_Introspection
  imports Core_Api
begin

text \<open>
  The memory introspection pseudo TA, \<^verbatim>\<open>src/qemu/pta/memory_introspection.c\<close>: the
  hexadecimal encoder, the address translation, the hashing of a memory range and the two
  commands. The trace lines that carry a result (a hash sum, a failed digest update) are
  recorded; the formatting of trace output belongs to the core.
\<close>

section \<open>Constants\<close>

definition PTA_MEMORY_INTROSPECTION_UUID :: TEE_UUID where
  "PTA_MEMORY_INTROSPECTION_UUID =
     (0xf323fa19, 0x183b, 0x4d83, [0xab, 0xdd, 0x3d, 0x04, 0x59, 0xe0, 0xf7, 0x11])"

definition PTA_CMD_GET_ADDRESS :: u32 where "PTA_CMD_GET_ADDRESS = 0"
definition PTA_CMD_GET_HASH :: u32 where "PTA_CMD_GET_HASH = 1"

definition STEXT_PA :: u64 where "STEXT_PA = 0x77610000"
definition ETEXT_PA :: u64 where "ETEXT_PA = 0x784A0000"

definition HexLookUp :: "char list" where
  "HexLookUp = lit ''0123456789abcdef''"

section \<open>Operations\<close>

text \<open>
  \<^verbatim>\<open>src\<close> and \<^verbatim>\<open>out\<close> are the memory from the two pointers to the end of their objects; the
  result is the memory at \<^verbatim>\<open>out\<close> afterwards. The loop counts the \<^verbatim>\<open>int\<close> down to zero, so a
  negative length runs until it leaves an object.
\<close>

fun bytes2hex :: "u8 list \<Rightarrow> char list \<Rightarrow> int \<Rightarrow> char list c_result" where
  "bytes2hex src out len =
     (if len = 0 then
        (case out of [] \<Rightarrow> Inl Buffer_overflow | _ # os \<Rightarrow> Inr (NUL # os))
      else
        case src of
          [] \<Rightarrow> Inl Out_of_bounds_read
        | b # bs \<Rightarrow>
            (case out of
               _ # _ # os \<Rightarrow>
                 (case bytes2hex bs os (len - 1) of
                    Inl e \<Rightarrow> Inl e
                  | Inr r \<Rightarrow> Inr (HexLookUp ! unat (drop_bit 4 b) # HexLookUp ! unat (b AND 0x0F) # r))
             | _ \<Rightarrow> Inl Buffer_overflow))"

declare bytes2hex.simps [simp del]

definition nsec_periph_base :: "core_env \<Rightarrow> u64 \<Rightarrow> u64 \<Rightarrow> u64" where
  "nsec_periph_base C pa len =
     (if cpu_mmu_enabled C then phys_to_virt C pa MEM_AREA_RAM_NSEC else pa)"

datatype pta_log =
    Update_failed
  | Sha256_sum "u8 list" "char list"
  | Param_types_differ u32 u32

definition sizeof_hashResult :: nat where "sizeof_hashResult = 32"

text \<open>
  The digest calls, which \<^verbatim>\<open>mem_hash\<close> and \<^verbatim>\<open>communication_test_ta_to_pta\<close> both contain: only the
  result of the update is looked at, and only to print a message. The array \<^verbatim>\<open>hashResult\<close> is
  not initialised, so using it after a failed finish reads indeterminate bytes.
\<close>

definition md_sequence :: "'c md_env \<Rightarrow> u8 list \<Rightarrow> pta_log list \<Rightarrow> (u8 list \<times> pta_log list) c_result" where
  "md_sequence M payload log =
     (let ctx0 = md_starts M (md_setup M (md_init M) MBEDTLS_MD_SHA256 0);
          (res, ctx1) = md_update M ctx0 payload;
          log1 = (if res \<noteq> 0 then log @ [Update_failed] else log)
      in case md_finish M ctx1 of
           None \<Rightarrow> Inl Uninitialised_read
         | Some d \<Rightarrow>
             if sizeof_hashResult < length d then Inl Buffer_overflow
             else if length d < sizeof_hashResult then Inl Uninitialised_read
             else Inr (d, log1))"

definition hash_hex ::
    "'c md_env \<Rightarrow> u8 list \<Rightarrow> pta_log list \<Rightarrow> (char list \<times> pta_log list) c_result" where
  "hash_hex M payload log =
     (case md_sequence M payload log of
        Inl e \<Rightarrow> Inl e
      | Inr (hashResult, log1) \<Rightarrow>
          (case bytes2hex hashResult (replicate (sizeof_hashResult * 2 + 1) NUL) (int sizeof_hashResult) of
             Inl e \<Rightarrow> Inl e
           | Inr buffer \<Rightarrow> Inr (buffer, log1)))"

text \<open>\<^verbatim>\<open>mem_hash\<close> is given the bytes of the range \<^verbatim>\<open>payload\<close>, \<^verbatim>\<open>payloadLength\<close> in its caller's memory.\<close>

definition mem_hash :: "'c md_env \<Rightarrow> u8 list \<Rightarrow> pta_log list \<Rightarrow> pta_log list c_result" where
  "mem_hash M payload log =
     (case hash_hex M payload log of
        Inl e \<Rightarrow> Inl e
      | Inr (buffer, log1) \<Rightarrow> Inr (log1 @ [Sha256_sum payload buffer]))"

definition bytes_of :: "string \<Rightarrow> u8 list" where
  "bytes_of s = map of_char s"

text \<open>
  Both commands hash the literal \<^verbatim>\<open>"Hello SHA 256!"\<close> without its terminator. \<^verbatim>\<open>get_memory_address\<close>
  hashes it before it looks at its parameters, and the kernel text afterwards.
\<close>

definition test_payload :: "u8 list" where
  "test_payload = bytes_of ''Hello SHA 256!''"

definition get_memory_address ::
    "core_env \<Rightarrow> tee_env \<Rightarrow> 'c md_env \<Rightarrow> u32 \<Rightarrow> params \<Rightarrow> pta_log list \<Rightarrow> (TEE_Result \<times> params \<times> pta_log list) c_result" where
  "get_memory_address C E M types params log =
     (case mem_hash M test_payload log of
        Inl e \<Rightarrow> Inl e
      | Inr log1 \<Rightarrow>
          (let exp_param_types = TEE_PARAM_TYPES E TEE_PARAM_TYPE_MEMREF_INOUT TEE_PARAM_TYPE_NONE
                                   TEE_PARAM_TYPE_NONE TEE_PARAM_TYPE_NONE in
           if types \<noteq> exp_param_types then
             Inr (TEE_ERROR_BAD_PARAMETERS, params, log1 @ [Param_types_differ types exp_param_types])
           else
             let stext_addr = nsec_periph_base C STEXT_PA 1;
                 etext_addr = nsec_periph_base C ETEXT_PA 1;
                 text_length = etext_addr - stext_addr in
             case read_mem C stext_addr (unat text_length) of
               Inl e \<Rightarrow> Inl e
             | Inr ktext \<Rightarrow>
                 (case mem_hash M ktext log1 of
                    Inl e \<Rightarrow> Inl e
                  | Inr log2 \<Rightarrow> Inr (TEE_SUCCESS, params, log2))))"

definition communication_test_ta_to_pta ::
    "tee_env \<Rightarrow> 'c md_env \<Rightarrow> u32 \<Rightarrow> params \<Rightarrow> pta_log list \<Rightarrow> (TEE_Result \<times> params \<times> pta_log list) c_result" where
  "communication_test_ta_to_pta E M types params log =
     (let exp_param_types = TEE_PARAM_TYPES E TEE_PARAM_TYPE_VALUE_INOUT TEE_PARAM_TYPE_MEMREF_OUTPUT
                              TEE_PARAM_TYPE_NONE TEE_PARAM_TYPE_NONE in
      if types \<noteq> exp_param_types then
        Inr (TEE_ERROR_BAD_PARAMETERS, params, log @ [Param_types_differ types exp_param_types])
      else
        case hash_hex M test_payload log of
          Inl e \<Rightarrow> Inl e
        | Inr (buffer, log1) \<Rightarrow>
            (case memref_buffer (params 1) of
               None \<Rightarrow> Inl Null_dereference
             | Some dst \<Rightarrow>
                 (case memcpy dst buffer 64 of
                    Inl e \<Rightarrow> Inl e
                  | Inr dst' \<Rightarrow>
                      Inr (TEE_SUCCESS, params(1 := (params 1)\<lparr>memref_buffer := Some dst'\<rparr>), log1))))"

definition invoke_command ::
    "core_env \<Rightarrow> tee_env \<Rightarrow> 'c md_env \<Rightarrow> u32 \<Rightarrow> u32 \<Rightarrow> params \<Rightarrow> pta_log list \<Rightarrow> (TEE_Result \<times> params \<times> pta_log list) c_result" where
  "invoke_command C E M nCommandID nParamTypes pParams log =
     (if nCommandID = PTA_CMD_GET_ADDRESS then get_memory_address C E M nParamTypes pParams log
      else if nCommandID = PTA_CMD_GET_HASH then communication_test_ta_to_pta E M nParamTypes pParams log
      else Inr (TEE_ERROR_NOT_IMPLEMENTED, pParams, log))"

section \<open>The hexadecimal encoder\<close>

definition hex_of :: "u8 list \<Rightarrow> char list" where
  "hex_of bs = concat (map (\<lambda>b. [HexLookUp ! unat (drop_bit 4 b), HexLookUp ! unat (b AND 0x0F)]) bs)"

lemma hex_of_simps [simp]:
  "hex_of [] = []"
  "hex_of (b # bs) = HexLookUp ! unat (drop_bit 4 b) # HexLookUp ! unat (b AND 0x0F) # hex_of bs"
  by (simp_all add: hex_of_def)

lemma length_hex_of [simp]: "length (hex_of bs) = 2 * length bs"
  by (induction bs) simp_all

lemma nibble_bounds: "unat (drop_bit 4 b) < 16" "unat (b AND 0x0F) < 16" for b :: u8
proof -
  have "unat (drop_bit 4 b) = unat b div 16"
    by (simp add: drop_bit_eq_div unat_div)
  then show "unat (drop_bit 4 b) < 16"
    using unsigned_less [of b, where ?'a = nat] by simp
  have "b AND 0x0F = take_bit 4 b" by (simp add: take_bit_eq_mask mask_eq_exp_minus_1)
  then show "unat (b AND 0x0F) < 16"
    by (simp add: unsigned_take_bit_eq take_bit_nat_less_exp [where n = 4, simplified])
qed

lemma bytes2hex_writes:
  assumes "n \<le> length src" and "2 * n < length out"
  shows "bytes2hex src out (int n) = Inr (hex_of (take n src) @ NUL # drop (Suc (2 * n)) out)"
  using assms
proof (induction n arbitrary: src out)
  case 0
  then show ?case by (cases out) (simp_all add: bytes2hex.simps)
next
  case (Suc n)
  obtain b bs where s: "src = b # bs" using Suc.prems(1) by (cases src) simp_all
  obtain o1 o2 os where ou: "out = o1 # o2 # os"
    using Suc.prems(2) by (cases out; cases "tl out") simp_all
  have "bytes2hex bs os (int n) = Inr (hex_of (take n bs) @ NUL # drop (Suc (2 * n)) os)"
    using Suc.prems by (intro Suc.IH) (simp_all add: s ou)
  then show ?case by (subst bytes2hex.simps) (simp add: s ou)
qed

lemma bytes2hex_fails:
  assumes "len < 0 \<or> length src < nat len \<or> length out \<le> 2 * nat len"
  shows "\<exists>e. bytes2hex src out len = Inl e"
  using assms
proof (induction src arbitrary: out len)
  case Nil
  then show ?case by (subst bytes2hex.simps) (auto split: list.splits)
next
  case (Cons b bs)
  show ?case
  proof (cases "len = 0")
    case True
    with Cons.prems show ?thesis by (subst bytes2hex.simps) simp
  next
    case False
    show ?thesis
    proof (cases "\<exists>o1 o2 os. out = o1 # o2 # os")
      case True
      then obtain o1 o2 os where ou: "out = o1 # o2 # os" by blast
      have "\<exists>e. bytes2hex bs os (len - 1) = Inl e"
        using Cons.prems False by (intro Cons.IH) (auto simp: ou nat_diff_distrib')
      with False ou show ?thesis by (subst bytes2hex.simps) auto
    next
      case short: False
      then have "out = [] \<or> (\<exists>o1. out = [o1])" by (cases out; cases "tl out") auto
      with False show ?thesis by (subst bytes2hex.simps) auto
    qed
  qed
qed

section \<open>Digests and translation\<close>

interpretation text_base: address_translation nsec_periph_base MEM_AREA_RAM_NSEC
  by unfold_locales (simp_all add: nsec_periph_base_def)

lemma hash_hex_provider:
  assumes "sha256_provider M H"
  shows "hash_hex M p log = Inr (hex_of (H p) @ [NUL], log)"
proof -
  have p: "length (H p) = 32"
    "fst (md_update M (md_starts M (md_setup M (md_init M) MBEDTLS_MD_SHA256 0)) p) = 0"
    "md_finish M (snd (md_update M (md_starts M (md_setup M (md_init M) MBEDTLS_MD_SHA256 0)) p)) = Some (H p)"
    using assms by (simp_all add: sha256_provider_def Let_def)
  then have "md_sequence M p log = Inr (H p, log)"
    by (simp add: md_sequence_def sizeof_hashResult_def Let_def case_prod_beta)
  moreover have "bytes2hex (H p) (replicate 65 NUL) (int 32) = Inr (hex_of (H p) @ [NUL])"
    using bytes2hex_writes [of 32 "H p" "replicate 65 NUL"] p(1) by simp
  ultimately show ?thesis by (simp add: hash_hex_def sizeof_hashResult_def)
qed

lemma mem_hash_provider:
  assumes "sha256_provider M H"
  shows "mem_hash M p log = Inr (log @ [Sha256_sum p (hex_of (H p) @ [NUL])])"
  by (simp add: mem_hash_def hash_hex_provider [OF assms])

text \<open>A digest implementation to run the model with: the digest is the length, 32 times.\<close>

definition length_md :: "u8 list md_env" where
  "length_md = \<lparr>md_init = [], md_setup = (\<lambda>c t i. c), md_starts = (\<lambda>c. c),
     md_update = (\<lambda>c p. (0, c @ p)), md_finish = (\<lambda>c. Some (replicate 32 (of_nat (length c))))\<rparr>"

lemma length_md_provider: "sha256_provider length_md (\<lambda>p. replicate 32 (of_nat (length p)))"
  by (simp add: sha256_provider_def length_md_def)

lemma text_length:
  assumes "linear_on C MEM_AREA_RAM_NSEC {STEXT_PA..ETEXT_PA} off"
  shows "nsec_periph_base C ETEXT_PA 1 - nsec_periph_base C STEXT_PA 1 = 15269888"
proof -
  have "STEXT_PA \<le> ETEXT_PA" by (simp add: STEXT_PA_def ETEXT_PA_def)
  then have "nsec_periph_base C ETEXT_PA 1 - nsec_periph_base C STEXT_PA 1 = ETEXT_PA - STEXT_PA"
    by (intro text_base.distance [OF assms]) simp_all
  then show ?thesis by (simp add: STEXT_PA_def ETEXT_PA_def)
qed

section \<open>Decoding\<close>

definition hexval :: "char \<Rightarrow> u8" where
  "hexval c = (if c \<in> set ''0123456789'' then of_char c - 48 else of_char c - 87)"

fun unhex :: "char list \<Rightarrow> u8 list" where
  "unhex (a # b # r) = (hexval a * 16 + hexval b) # unhex r"
| "unhex _ = []"

lemma HexLookUp_table:
  "list_all (\<lambda>n. hexval (HexLookUp ! n) = of_nat n \<and> HexLookUp ! n \<noteq> NUL) [0..<16]"
  by code_simp

lemma HexLookUp_digit:
  assumes "n < 16"
  shows "hexval (HexLookUp ! n) = of_nat n" and "HexLookUp ! n \<noteq> NUL"
  using HexLookUp_table assms by (simp_all add: list_all_iff del: upt_rec_numeral)

lemma nibbles_join: "drop_bit 4 b * 16 + (b AND 0x0F) = b" for b :: u8
proof -
  have "b AND 0x0F = take_bit 4 b" by (simp add: take_bit_eq_mask mask_eq_exp_minus_1)
  moreover have "drop_bit 4 b * 16 = push_bit 4 (drop_bit 4 b)" by (simp add: push_bit_eq_mult)
  ultimately show ?thesis by (simp only: bits_ident)
qed

lemma unhex_hex_of: "unhex (hex_of bs) = bs"
  by (induction bs) (simp_all add: HexLookUp_digit nibble_bounds nibbles_join)

lemma NUL_notin_hex_of: "NUL \<notin> set (hex_of bs)"
  by (induction bs) (auto simp: HexLookUp_digit(2) [OF nibble_bounds(1), symmetric]
      HexLookUp_digit(2) [OF nibble_bounds(2), symmetric] dest: sym)

section \<open>Properties\<close>

text \<open>A core with every address mapped.\<close>

definition blank_core :: core_env where
  "blank_core = \<lparr>cpu_mmu_enabled = True, phys_to_virt = (\<lambda>pa area. pa + 0x1000), mem = (\<lambda>_. Some 0),
     io_in = (\<lambda>t a. 0)\<rparr>"

text \<open>
  C21: the hexadecimal text decodes to the bytes it encodes. With room for the digits and
  the terminator, \<^verbatim>\<open>bytes2hex\<close> stores a C string from which the first \<^verbatim>\<open>len\<close> source bytes are
  recovered, and changes nothing behind the terminator.
\<close>

theorem bytes2hex_roundtrip:
  assumes "n \<le> length src" and "2 * n < length out"
  shows "\<exists>r. bytes2hex src out (int n) = Inr r \<and> unhex (cstr r) = take n src \<and>
    length (cstr r) = 2 * n \<and> length r = length out \<and> drop (Suc (2 * n)) r = drop (Suc (2 * n)) out"
proof -
  have "cstr (hex_of (take n src) @ NUL # drop (Suc (2 * n)) out) = hex_of (take n src)"
    by (rule cstr_append) (rule NUL_notin_hex_of)
  then show ?thesis
    using bytes2hex_writes [OF assms] assms by (simp add: unhex_hex_of)
qed

theorem bytes2hex_roundtrip_witness:
  "\<exists>r. bytes2hex [0xa5, 0x0f] (replicate 8 NUL) (int 2) = Inr r \<and> unhex (cstr r) = take 2 [0xa5, 0x0f] \<and>
    length (cstr r) = 2 * 2 \<and> length r = length (replicate 8 NUL) \<and>
    drop (Suc (2 * 2)) r = drop (Suc (2 * 2)) (replicate 8 NUL)"
  by (rule bytes2hex_roundtrip) simp_all

text \<open>
  The exact memory footprint of \<^verbatim>\<open>bytes2hex\<close>: for every source, destination and \<^verbatim>\<open>int\<close>
  length it runs without a memory error exactly when the length is not negative, the source
  has that many bytes and the destination twice as many and one more.
\<close>

theorem bytes2hex_footprint:
  "(\<exists>r. bytes2hex src out len = Inr r) \<longleftrightarrow> 0 \<le> len \<and> nat len \<le> length src \<and> 2 * nat len < length out"
proof
  assume "\<exists>r. bytes2hex src out len = Inr r"
  then have "\<not> (len < 0 \<or> length src < nat len \<or> length out \<le> 2 * nat len)"
    using bytes2hex_fails [of len src out] by force
  then show "0 \<le> len \<and> nat len \<le> length src \<and> 2 * nat len < length out" by auto
next
  assume ok: "0 \<le> len \<and> nat len \<le> length src \<and> 2 * nat len < length out"
  then show "\<exists>r. bytes2hex src out len = Inr r"
    using bytes2hex_writes [of "nat len" src out] by simp
qed

text \<open>
  C22: what the hash command delivers. With a correct SHA-256 and a buffer of at least 64
  bytes it succeeds and changes exactly the first 64 bytes of the second parameter's buffer,
  to the hexadecimal digest of the constant \<^verbatim>\<open>"Hello SHA 256!"\<close>: the result is the same for
  every content of memory (\<^verbatim>\<open>C\<close> is arbitrary), so it carries no information on the kernel.
\<close>

theorem hash_command_writes_digest:
  assumes "sha256_provider M H"
    and "types = TEE_PARAM_TYPES E TEE_PARAM_TYPE_VALUE_INOUT TEE_PARAM_TYPE_MEMREF_OUTPUT
      TEE_PARAM_TYPE_NONE TEE_PARAM_TYPE_NONE"
    and "memref_buffer (params 1) = Some b" and "64 \<le> length b"
  shows "\<exists>b'. invoke_command C E M PTA_CMD_GET_HASH types params log =
      Inr (TEE_SUCCESS, params(1 := (params 1)\<lparr>memref_buffer := Some b'\<rparr>), log) \<and>
    unhex (take 64 b') = H test_payload \<and> drop 64 b' = drop 64 b \<and> length b' = length b"
proof -
  have len: "length (hex_of (H test_payload)) = 64"
    using assms(1) by (simp add: sha256_provider_def)
  then have "memcpy b (hex_of (H test_payload) @ [NUL]) 64 = Inr (hex_of (H test_payload) @ drop 64 b)"
    using assms(4) by (simp add: memcpy_def)
  then show ?thesis
    using assms(2-4) len
    by (intro exI [of _ "hex_of (H test_payload) @ drop 64 b"])
       (simp add: invoke_command_def PTA_CMD_GET_HASH_def PTA_CMD_GET_ADDRESS_def
          communication_test_ta_to_pta_def hash_hex_provider [OF assms(1)] unhex_hex_of)
qed

theorem hash_command_writes_digest_witness:
  "\<exists>b'. invoke_command blank_core demo_env length_md PTA_CMD_GET_HASH
      (TEE_PARAM_TYPES demo_env TEE_PARAM_TYPE_VALUE_INOUT TEE_PARAM_TYPE_MEMREF_OUTPUT
        TEE_PARAM_TYPE_NONE TEE_PARAM_TYPE_NONE) (out_params 64) [] =
      Inr (TEE_SUCCESS, (out_params 64)(1 := (out_params 64 1)\<lparr>memref_buffer := Some b'\<rparr>), []) \<and>
    unhex (take 64 b') = replicate 32 (of_nat (length test_payload)) \<and>
    drop 64 b' = drop 64 (replicate 64 NUL) \<and> length b' = length (replicate 64 NUL)"
  by (rule hash_command_writes_digest [OF length_md_provider refl]) (simp_all add: out_params_def)

text \<open>
  The hash command never compares the 64 bytes it copies with the size of the caller's
  buffer: with a shorter buffer the copy writes past its end, whatever size the parameter
  states.
\<close>

theorem hash_command_overflows_short_buffer:
  assumes "sha256_provider M H"
    and "types = TEE_PARAM_TYPES E TEE_PARAM_TYPE_VALUE_INOUT TEE_PARAM_TYPE_MEMREF_OUTPUT
      TEE_PARAM_TYPE_NONE TEE_PARAM_TYPE_NONE"
    and "memref_buffer (params 1) = Some b" and "length b < 64"
  shows "invoke_command C E M PTA_CMD_GET_HASH types params log = Inl Buffer_overflow"
proof -
  have "length (hex_of (H test_payload)) = 64"
    using assms(1) by (simp add: sha256_provider_def)
  then show ?thesis
    using assms(2-4)
    by (simp add: invoke_command_def PTA_CMD_GET_HASH_def PTA_CMD_GET_ADDRESS_def memcpy_def
        communication_test_ta_to_pta_def hash_hex_provider [OF assms(1)])
qed

theorem hash_command_overflows_short_buffer_witness:
  "invoke_command blank_core demo_env length_md PTA_CMD_GET_HASH
     (TEE_PARAM_TYPES demo_env TEE_PARAM_TYPE_VALUE_INOUT TEE_PARAM_TYPE_MEMREF_OUTPUT
       TEE_PARAM_TYPE_NONE TEE_PARAM_TYPE_NONE) (out_params 36) [] = Inl Buffer_overflow"
  by (rule hash_command_overflows_short_buffer [OF length_md_provider refl, where b = "replicate 36 NUL"])
     (simp_all add: out_params_def)

text \<open>
  C38: the address command hashes exactly the kernel text. With a correct SHA-256 and a
  translation that is linear on the kernel text, the range it reads is the 15269888 bytes
  from the address of \<^verbatim>\<open>stext\<close>; if they are mapped, the command succeeds and traces the
  digest of their contents, and the caller's parameters are returned unchanged: the digest
  is not delivered to the caller.
\<close>

theorem address_command_traces_text_digest:
  assumes "sha256_provider M H"
    and "types = TEE_PARAM_TYPES E TEE_PARAM_TYPE_MEMREF_INOUT TEE_PARAM_TYPE_NONE
      TEE_PARAM_TYPE_NONE TEE_PARAM_TYPE_NONE"
    and "linear_on C MEM_AREA_RAM_NSEC {STEXT_PA..ETEXT_PA} off"
    and "\<And>i. i < 15269888 \<Longrightarrow> mem C (nsec_periph_base C STEXT_PA 1 + of_nat i) \<noteq> None"
  shows "\<exists>ktext. invoke_command C E M PTA_CMD_GET_ADDRESS types params log =
      Inr (TEE_SUCCESS, params, log @ [Sha256_sum test_payload (hex_of (H test_payload) @ [NUL]),
        Sha256_sum ktext (hex_of (H ktext) @ [NUL])]) \<and>
    length ktext = 15269888 \<and>
    (\<forall>i < 15269888. mem C (nsec_periph_base C STEXT_PA 1 + of_nat i) = Some (ktext ! i))"
proof -
  obtain ktext where r: "read_mem C (nsec_periph_base C STEXT_PA 1) 15269888 = Inr ktext"
    using read_mem_iff [of C "nsec_periph_base C STEXT_PA 1" 15269888] assms(4) by blast
  show ?thesis
  proof (intro exI [of _ ktext] conjI allI impI)
    show "invoke_command C E M PTA_CMD_GET_ADDRESS types params log =
      Inr (TEE_SUCCESS, params, log @ [Sha256_sum test_payload (hex_of (H test_payload) @ [NUL]),
        Sha256_sum ktext (hex_of (H ktext) @ [NUL])])"
      using assms(2) r
      by (simp add: invoke_command_def get_memory_address_def mem_hash_provider [OF assms(1)]
          text_length [OF assms(3)])
  qed (use read_mem_length [OF r] read_mem_nth [OF r] in simp_all)
qed

theorem address_command_traces_text_digest_witness:
  "\<exists>ktext. invoke_command blank_core demo_env length_md PTA_CMD_GET_ADDRESS
      (TEE_PARAM_TYPES demo_env TEE_PARAM_TYPE_MEMREF_INOUT TEE_PARAM_TYPE_NONE
        TEE_PARAM_TYPE_NONE TEE_PARAM_TYPE_NONE) (out_params 0) [] =
      Inr (TEE_SUCCESS, out_params 0, [] @ [Sha256_sum test_payload
          (hex_of (replicate 32 (of_nat (length test_payload))) @ [NUL]),
        Sha256_sum ktext (hex_of (replicate 32 (of_nat (length ktext))) @ [NUL])]) \<and>
    length ktext = 15269888 \<and>
    (\<forall>i < 15269888. mem blank_core (nsec_periph_base blank_core STEXT_PA 1 + of_nat i) = Some (ktext ! i))"
  by (rule address_command_traces_text_digest [OF length_md_provider refl, where off = "0x1000"])
     (simp_all add: blank_core_def linear_on_def)

text \<open>
  The dispatch of the pseudo TA: an unknown command is answered with
  \<^verbatim>\<open>TEE_ERROR_NOT_IMPLEMENTED\<close> and no effect; the hash command with other parameter types
  with \<^verbatim>\<open>TEE_ERROR_BAD_PARAMETERS\<close> and no effect but a trace line; the address command checks
  its types only after hashing, so the test digest is traced before the same error.
\<close>

theorem introspection_rejects_bad_calls:
  assumes "sha256_provider M H"
  shows "(cmd \<notin> {0, 1} \<longrightarrow> invoke_command C E M cmd ty ps log = Inr (TEE_ERROR_NOT_IMPLEMENTED, ps, log)) \<and>
   (ty \<noteq> TEE_PARAM_TYPES E TEE_PARAM_TYPE_VALUE_INOUT TEE_PARAM_TYPE_MEMREF_OUTPUT
       TEE_PARAM_TYPE_NONE TEE_PARAM_TYPE_NONE \<longrightarrow>
     (\<exists>x. invoke_command C E M PTA_CMD_GET_HASH ty ps log =
       Inr (TEE_ERROR_BAD_PARAMETERS, ps, log @ [Param_types_differ ty x]))) \<and>
   (ty \<noteq> TEE_PARAM_TYPES E TEE_PARAM_TYPE_MEMREF_INOUT TEE_PARAM_TYPE_NONE
       TEE_PARAM_TYPE_NONE TEE_PARAM_TYPE_NONE \<longrightarrow>
     (\<exists>x. invoke_command C E M PTA_CMD_GET_ADDRESS ty ps log =
       Inr (TEE_ERROR_BAD_PARAMETERS, ps,
         log @ [Sha256_sum test_payload (hex_of (H test_payload) @ [NUL]), Param_types_differ ty x])))"
  by (simp add: invoke_command_def PTA_CMD_GET_HASH_def PTA_CMD_GET_ADDRESS_def
      communication_test_ta_to_pta_def get_memory_address_def mem_hash_provider [OF assms])

theorem introspection_rejects_bad_calls_witness:
  "invoke_command blank_core demo_env length_md 2 0 (out_params 0) [] =
     Inr (TEE_ERROR_NOT_IMPLEMENTED, out_params 0, [])"
  using introspection_rejects_bad_calls [OF length_md_provider, of 2 blank_core demo_env 0 "out_params 0" "[]"]
  by simp

end
