(* ===== verification/Pta_Watchdog.thy ===== *)
theory Pta_Watchdog
  imports Core_Api
begin

text \<open>
  The watchdog pseudo TA, \<^verbatim>\<open>src/qemu/pta/watchdogtimer.c\<close>: every command it knows starts the
  BCM2835 watchdog with two register writes. Device accesses are recorded in order; what the
  device answers to a read is a function of the environment.
\<close>

section \<open>Constants\<close>

definition PTA_WATCHDOG_TIMER_UUID :: TEE_UUID where
  "PTA_WATCHDOG_TIMER_UUID =
     (0x44c9884e, 0x9e5f, 0x48d9, [0x9b, 0x78, 0x4d, 0x14, 0x1a, 0x2f, 0xec, 0xab])"

definition BASE_ADDRESS :: u64 where "BASE_ADDRESS = 0x3F100000"

definition GPIO_ON :: u32 where "GPIO_ON = 0"
definition GPIO_OFF :: u32 where "GPIO_OFF = 1"
definition PM_START :: u32 where "PM_START = 2"

definition RPI3_PERI_BASE :: u64 where "RPI3_PERI_BASE = 0x3F000000"
definition GPIO_BASE :: u64 where "GPIO_BASE = RPI3_PERI_BASE + 0x200000"
definition WDT_BASE :: u64 where "WDT_BASE = RPI3_PERI_BASE + 0x100000"
definition PM_RSTC :: u64 where "PM_RSTC = 0x1c"
definition PM_WDOG :: u64 where "PM_WDOG = 0x24"

definition PM_PASSWORD :: u32 where "PM_PASSWORD = 0x5a000000"
definition PM_RSTC_WRCFG_FULL_RESET :: u32 where "PM_RSTC_WRCFG_FULL_RESET = 0x00000020"
definition PM_WDOG_TIME_SET :: u32 where "PM_WDOG_TIME_SET = 0x000fffff"

lemmas pm_defs = PM_PASSWORD_def PM_RSTC_WRCFG_FULL_RESET_def PM_WDOG_TIME_SET_def PM_RSTC_def PM_WDOG_def

section \<open>Operations\<close>

definition nsec_periph_base :: "core_env \<Rightarrow> u64 \<Rightarrow> u64 \<Rightarrow> u64" where
  "nsec_periph_base C pa len =
     (if cpu_mmu_enabled C then phys_to_virt C pa MEM_AREA_IO_NSEC else pa)"

definition testWDTOn :: "core_env \<Rightarrow> io_event list \<Rightarrow> TEE_Result \<times> io_event list" where
  "testWDTOn C t =
     (let timeout = 10;
          wdt_base = nsec_periph_base C WDT_BASE 1;
          (data, t1) = io_read32 C wdt_base t;
          t2 = io_write32 (wdt_base + PM_WDOG) (PM_PASSWORD OR (timeout AND PM_WDOG_TIME_SET)) t1;
          t3 = io_write32 (wdt_base + PM_RSTC) (PM_PASSWORD OR PM_RSTC_WRCFG_FULL_RESET) t2
      in (TEE_SUCCESS, t3))"

definition invoke_command ::
    "core_env \<Rightarrow> u32 \<Rightarrow> u32 \<Rightarrow> params \<Rightarrow> io_event list \<Rightarrow> TEE_Result \<times> io_event list" where
  "invoke_command C cmd ptypes params t =
     (if cmd = GPIO_ON \<or> cmd = GPIO_OFF \<or> cmd = PM_START then testWDTOn C t
      else (TEE_ERROR_BAD_PARAMETERS, t))"

section \<open>Reading the device trace\<close>

interpretation wdt_base: address_translation nsec_periph_base MEM_AREA_IO_NSEC
  by unfold_locales (simp_all add: nsec_periph_base_def)

fun io_written :: "io_event list \<Rightarrow> (u64 \<times> u32) list" where
  "io_written [] = []"
| "io_written (Io_write32 a v # t) = (a, v) # io_written t"
| "io_written (Io_read32 a v # t) = io_written t"

lemma io_written_append [simp]: "io_written (t @ u) = io_written t @ io_written u"
  by (induction t rule: io_written.induct) simp_all

definition wdt_start :: "core_env \<Rightarrow> (u64 \<times> u32) list" where
  "wdt_start C = [(nsec_periph_base C WDT_BASE 1 + 0x24, 0x5a00000a), (nsec_periph_base C WDT_BASE 1 + 0x1c, 0x5a000020)]"

lemma testWDTOn_trace:
  "testWDTOn C t = (TEE_SUCCESS, t @ [Io_read32 (nsec_periph_base C WDT_BASE 1) (io_in C t (nsec_periph_base C WDT_BASE 1)),
     Io_write32 (nsec_periph_base C WDT_BASE 1 + 0x24) 0x5a00000a,
     Io_write32 (nsec_periph_base C WDT_BASE 1 + 0x1c) 0x5a000020])"
  by (simp add: testWDTOn_def io_read32_def io_write32_def pm_defs Let_def)

fun command_run :: "core_env \<Rightarrow> u32 list \<Rightarrow> io_event list \<Rightarrow> TEE_Result list \<times> io_event list" where
  "command_run C [] t = ([], t)"
| "command_run C (c # cs) t =
     (let (r, t1) = invoke_command C c 0 (\<lambda>_. zero_param) t; (rs, t2) = command_run C cs t1 in (r # rs, t2))"

lemma command_run_writes:
  "io_written (snd (command_run C cs t)) =
     io_written t @ concat (map (\<lambda>c. if c \<in> {0, 1, 2} then wdt_start C else []) cs) \<and>
   fst (command_run C cs t) = map (\<lambda>c. if c \<in> {0, 1, 2} then TEE_SUCCESS else TEE_ERROR_BAD_PARAMETERS) cs"
proof (induction cs arbitrary: t)
  case (Cons c cs)
  obtain r t1 where i: "invoke_command C c 0 (\<lambda>_. zero_param) t = (r, t1)"
    by (cases "invoke_command C c 0 (\<lambda>_. zero_param) t")
  then have "r = (if c \<in> {0, 1, 2} then TEE_SUCCESS else TEE_ERROR_BAD_PARAMETERS)"
    "io_written t1 = io_written t @ (if c \<in> {0, 1, 2} then wdt_start C else [])"
    by (auto simp: invoke_command_def GPIO_ON_def GPIO_OFF_def PM_START_def testWDTOn_trace wdt_start_def
        split: if_splits)
  with i Cons.IH [of t1] show ?case by (auto simp: case_prod_beta Let_def)
qed simp

text \<open>
  The values the code composes for the two registers: the password occupies the top
  eight bits and overlaps no field, the time field reads back as the requested timeout of
  ten units for the whole 20-bit field, and the reset configuration field is full reset.
\<close>

lemma watchdog_register_fields:
  "drop_bit 24 (PM_PASSWORD OR (timeout AND PM_WDOG_TIME_SET)) = 0x5a \<and>
   (PM_PASSWORD OR (timeout AND PM_WDOG_TIME_SET)) AND PM_WDOG_TIME_SET = take_bit 20 timeout \<and>
   drop_bit 24 (PM_PASSWORD OR PM_RSTC_WRCFG_FULL_RESET) = 0x5a \<and>
   (PM_PASSWORD OR PM_RSTC_WRCFG_FULL_RESET) AND 0x30 = PM_RSTC_WRCFG_FULL_RESET"
proof -
  have m: "(0x000fffff :: u32) = mask 20" by (simp add: mask_eq_exp_minus_1)
  have "drop_bit 24 (take_bit 20 timeout) = 0" by (simp add: drop_bit_take_bit)
  then show ?thesis
    by (simp add: pm_defs drop_bit_or m take_bit_eq_mask [symmetric] bit.conj_disj_distrib2 take_bit_or)
qed

section \<open>Properties\<close>


end
