(* ===== verification/Py_Text.thy ===== *)
theory Py_Text
  imports Main "HOL-Library.Sublist"
begin

text \<open>
  What the log receiver, a Python program, uses of its language: strings as lists of code
  points, the UTF-8 codec, the string methods \<^verbatim>\<open>in\<close>, \<^verbatim>\<open>find\<close>, \<^verbatim>\<open>split\<close>, \<^verbatim>\<open>splitlines\<close>,
  \<^verbatim>\<open>strip\<close> and \<^verbatim>\<open>replace\<close>, \<^verbatim>\<open>binascii.a2b_hex\<close>, and bounded deques. A byte is a natural number
  below 256 and bytes are lists of them; None is a raised exception.
\<close>

type_synonym py_str = "nat list"
type_synonym bytes = "nat list"

named_theorems py_simps \<open>rewriting of Python string operations\<close>

text \<open>A string literal of the source.\<close>

definition str :: "string \<Rightarrow> py_str" where
  "str s = map of_char s"

lemma str_simps [simp]:
  "str [] = []" "str (c # cs) = of_char c # str cs" "str (s @ t) = str s @ str t" "length (str s) = length s"
  by (simp_all add: str_def)

section \<open>UTF-8\<close>

definition cont_byte :: "nat \<Rightarrow> bool" where
  "cont_byte b \<longleftrightarrow> 128 \<le> b \<and> b < 192"

text \<open>The first code point of a byte string, with strict errors: overlong forms and surrogates are refused.\<close>

definition utf8_next :: "bytes \<Rightarrow> (nat \<times> bytes) option" where
  "utf8_next bs = (case bs of
       [] \<Rightarrow> None
     | b # bs1 \<Rightarrow>
         if b < 128 then Some (b, bs1)
         else if 194 \<le> b \<and> b < 224 then
           (case bs1 of
              c # bs2 \<Rightarrow> if cont_byte c then Some ((b - 192) * 64 + (c - 128), bs2) else None
            | _ \<Rightarrow> None)
         else if 224 \<le> b \<and> b < 240 then
           (case bs1 of
              c # d # bs3 \<Rightarrow>
                (let p = (b - 224) * 4096 + (c - 128) * 64 + (d - 128) in
                 if cont_byte c \<and> cont_byte d \<and> 2048 \<le> p \<and> \<not> (55296 \<le> p \<and> p < 57344)
                 then Some (p, bs3) else None)
            | _ \<Rightarrow> None)
         else if 240 \<le> b \<and> b < 245 then
           (case bs1 of
              c # d # e # bs4 \<Rightarrow>
                (let p = (b - 240) * 262144 + (c - 128) * 4096 + (d - 128) * 64 + (e - 128) in
                 if cont_byte c \<and> cont_byte d \<and> cont_byte e \<and> 65536 \<le> p \<and> p < 1114112
                 then Some (p, bs4) else None)
            | _ \<Rightarrow> None)
         else None)"

lemma utf8_next_shorter: "utf8_next bs = Some (p, rest) \<Longrightarrow> length rest < length bs"
  by (auto simp: utf8_next_def Let_def split: list.splits if_splits)

function utf8_decode :: "bytes \<Rightarrow> py_str option" where
  "utf8_decode bs =
     (if bs = [] then Some []
      else case utf8_next bs of
             None \<Rightarrow> None
           | Some (p, rest) \<Rightarrow> (case utf8_decode rest of None \<Rightarrow> None | Some s \<Rightarrow> Some (p # s)))"
  by pat_completeness auto
termination
  by (relation "measure length") (auto dest: utf8_next_shorter)

declare utf8_decode.simps [simp del]

definition utf8_char :: "nat \<Rightarrow> bytes" where
  "utf8_char p =
     (if p < 128 then [p]
      else if p < 2048 then [192 + p div 64, 128 + p mod 64]
      else if p < 65536 then [224 + p div 4096, 128 + p div 64 mod 64, 128 + p mod 64]
      else [240 + p div 262144, 128 + p div 4096 mod 64, 128 + p div 64 mod 64, 128 + p mod 64])"

definition utf8_encode :: "py_str \<Rightarrow> bytes" where
  "utf8_encode s = concat (map utf8_char s)"

text \<open>The code points that have an encoding: \<^verbatim>\<open>encode\<close> raises on a surrogate.\<close>

definition scalar :: "nat \<Rightarrow> bool" where
  "scalar p \<longleftrightarrow> p < 1114112 \<and> \<not> (55296 \<le> p \<and> p < 57344)"

lemma split_sextets:
  fixes p :: nat
  shows "p div 64 * 64 + p mod 64 = p"
    and "p div 4096 * 4096 + p div 64 mod 64 * 64 + p mod 64 = p"
    and "p div 262144 * 262144 + p div 4096 mod 64 * 4096 + p div 64 mod 64 * 64 + p mod 64 = p"
proof -
  have d: "p div 4096 = p div 64 div 64" "p div 262144 = p div 64 div 64 div 64"
    by (simp_all add: div_mult2_eq [symmetric])
  note m = div_mult_mod_eq [of p 64] div_mult_mod_eq [of "p div 64" 64] div_mult_mod_eq [of "p div 64 div 64" 64]
  show "p div 64 * 64 + p mod 64 = p"
    and "p div 4096 * 4096 + p div 64 mod 64 * 64 + p mod 64 = p"
    and "p div 262144 * 262144 + p div 4096 mod 64 * 4096 + p div 64 mod 64 * 64 + p mod 64 = p"
    unfolding d using m by linarith+
qed

lemma utf8_next_char:
  assumes "scalar p"
  shows "utf8_next (utf8_char p @ rest) = Some (p, rest)"
proof -
  consider "p < 128" | "128 \<le> p" "p < 2048" | "2048 \<le> p" "p < 65536" | "65536 \<le> p" by linarith
  then show ?thesis
  proof cases
    case 2
    have "p div 64 < 32" "2 \<le> p div 64" using 2 by (simp_all add: div_less_iff_less_mult less_eq_div_iff_mult_less_eq)
    then show ?thesis
      using 2 split_sextets(1) [of p] by (simp add: utf8_next_def utf8_char_def cont_byte_def div_less_iff_less_mult)
  next
    case 3
    have "p div 4096 < 16" using 3 by (simp add: div_less_iff_less_mult)
    then show ?thesis
      using 3 split_sextets(2) [of p] assms by (simp add: utf8_next_def utf8_char_def cont_byte_def Let_def scalar_def)
  next
    case 4
    have "p div 262144 < 5" using assms by (simp add: div_less_iff_less_mult scalar_def)
    then show ?thesis
      using 4 split_sextets(3) [of p] assms by (simp add: utf8_next_def utf8_char_def cont_byte_def Let_def scalar_def)
  qed (simp add: utf8_next_def utf8_char_def)
qed

lemma utf8_char_not_Nil [simp]: "utf8_char p \<noteq> []"
  by (simp add: utf8_char_def)

lemma utf8_roundtrip: "list_all scalar s \<Longrightarrow> utf8_decode (utf8_encode s) = Some s"
proof (induction s)
  case Nil
  show ?case by (simp add: utf8_encode_def utf8_decode.simps)
next
  case (Cons p s)
  then show ?case
    by (subst utf8_decode.simps) (simp add: utf8_encode_def utf8_next_char)
qed

lemma utf8_encode_bytes: "list_all scalar s \<Longrightarrow> list_all (\<lambda>b. b < 256) (utf8_encode s)"
proof (induction s)
  case (Cons p s)
  have "p div 262144 < 5" using Cons.prems by (simp add: div_less_iff_less_mult scalar_def)
  then have "list_all (\<lambda>b. b < 256) (utf8_char p)"
    by (auto simp: utf8_char_def div_less_iff_less_mult intro: less_trans [of _ "64 + 128"])
  with Cons show ?case by (simp add: utf8_encode_def)
qed (simp add: utf8_encode_def)

lemma utf8_next_scalar: "utf8_next bs = Some (p, rest) \<Longrightarrow> scalar p"
  by (auto simp: utf8_next_def Let_def scalar_def cont_byte_def split: list.splits if_splits)

lemma utf8_decode_scalar: "utf8_decode bs = Some s \<Longrightarrow> list_all scalar s"
proof (induction bs arbitrary: s rule: utf8_decode.induct)
  case (1 bs)
  show ?case
  proof (cases "bs = []")
    case False
    with "1.prems" obtain p rest s' where
        n: "utf8_next bs = Some (p, rest)" "utf8_decode rest = Some s'" "s = p # s'"
      by (subst (asm) utf8_decode.simps) (auto split: option.splits)
    from "1.IH" [OF False n(1) refl n(2)] utf8_next_scalar [OF n(1)] n(3) show ?thesis by simp
  qed (use "1.prems" in \<open>simp add: utf8_decode.simps\<close>)
qed

lemma utf8_decode_ascii:
  assumes "list_all (\<lambda>b. b < 128) bs"
  shows "utf8_decode bs = Some bs"
proof -
  have "utf8_encode bs = bs" using assms by (induction bs) (auto simp: utf8_encode_def utf8_char_def)
  moreover have "list_all scalar bs" using assms by (auto simp: list_all_iff scalar_def)
  ultimately show ?thesis using utf8_roundtrip [of bs] by simp
qed

section \<open>Substrings\<close>

text \<open>\<^verbatim>\<open>p in s\<close>, and \<^verbatim>\<open>s.find(p)\<close> with None for the answer -1.\<close>

fun py_in :: "py_str \<Rightarrow> py_str \<Rightarrow> bool" where
  "py_in p [] \<longleftrightarrow> p = []"
| "py_in p (c # cs) \<longleftrightarrow> prefix p (c # cs) \<or> py_in p cs"

fun py_find :: "py_str \<Rightarrow> py_str \<Rightarrow> nat option" where
  "py_find p [] = (if p = [] then Some 0 else None)"
| "py_find p (c # cs) = (if prefix p (c # cs) then Some 0 else map_option Suc (py_find p cs))"

lemma py_in_iff: "py_in p s \<longleftrightarrow> (\<exists>a b. s = a @ p @ b)"
proof (induction s)
  case (Cons c cs)
  note IH = Cons.IH
  show ?case
  proof
    assume "py_in p (c # cs)"
    then consider b where "c # cs = [] @ p @ b" | a b where "c # cs = (c # a) @ p @ b"
      using Cons by (auto simp: prefix_def)
    then show "\<exists>a b. c # cs = a @ p @ b" by cases blast+
  next
    assume "\<exists>a b. c # cs = a @ p @ b"
    then obtain a b where ab: "c # cs = a @ p @ b" by blast
    show "py_in p (c # cs)"
    proof (cases a)
      case Nil
      with ab have "prefix p (c # cs)" by (auto intro: prefixI)
      then show ?thesis by simp
    next
      case (Cons d ds)
      with ab have "cs = ds @ p @ b" by simp
      with IH show ?thesis by auto
    qed
  qed
qed auto

lemma py_in_append: "py_in p s \<Longrightarrow> py_in p (a @ s @ b)"
proof -
  assume "py_in p s"
  then obtain u v where "s = u @ p @ v" by (auto simp: py_in_iff)
  then have "a @ s @ b = (a @ u) @ p @ (v @ b)" by simp
  then show ?thesis unfolding py_in_iff by blast
qed

lemma py_in_append1: "py_in p s \<Longrightarrow> py_in p (s @ b)"
  using py_in_append [of p s "[]" b] by simp

lemma py_in_append2: "py_in p s \<Longrightarrow> py_in p (a @ s)"
  using py_in_append [of p s a "[]"] by simp

lemma py_in_refl [simp]: "py_in p p"
  by (auto simp: py_in_iff intro: exI [of _ "[]"])

lemma py_in_Nil [simp]: "py_in [] s"
  by (auto simp: py_in_iff intro: exI [of _ "[]"])

lemma py_find_None: "py_find p s = None \<longleftrightarrow> \<not> py_in p s"
  by (induction s) auto

lemma py_find_Some: "py_find p s = Some i \<Longrightarrow> \<exists>b. s = take i s @ p @ b \<and> i \<le> length s"
proof (induction s arbitrary: i)
  case (Cons c cs)
  then show ?case by (auto simp: prefix_def split: if_splits)
qed (auto split: if_splits)

section \<open>Splitting\<close>

fun py_split :: "nat \<Rightarrow> py_str \<Rightarrow> py_str list" where
  "py_split sep [] = [[]]"
| "py_split sep (c # cs) =
     (if c = sep then [] # py_split sep cs
      else case py_split sep cs of [] \<Rightarrow> [[c]] | f # fs \<Rightarrow> (c # f) # fs)"

lemma py_split_not_Nil [simp]: "py_split sep s \<noteq> []"
  by (induction s) (auto split: list.splits)

lemma hd_py_split: "hd (py_split sep s) = takeWhile (\<lambda>c. c \<noteq> sep) s"
  by (induction s) (auto split: list.splits)

lemma py_split_append: "py_split sep (s @ sep # t) = py_split sep s @ py_split sep t"
  by (induction s) (auto split: list.splits)

lemma py_split_none: "sep \<notin> set s \<Longrightarrow> py_split sep s = [s]"
  by (induction s) auto

text \<open>The line boundaries of \<^verbatim>\<open>splitlines\<close>; a carriage return takes a following line feed with it.\<close>

definition line_break :: "nat \<Rightarrow> bool" where
  "line_break c \<longleftrightarrow> c \<in> {10, 11, 12, 13, 28, 29, 30, 133, 8232, 8233}"

function split_from :: "py_str \<Rightarrow> py_str \<Rightarrow> py_str list" where
  "split_from cur [] = (if cur = [] then [] else [cur])"
| "split_from cur (c # cs) =
     (if line_break c
      then cur # split_from [] (if c = 13 \<and> cs \<noteq> [] \<and> hd cs = 10 then tl cs else cs)
      else split_from (cur @ [c]) cs)"
  by pat_completeness auto
termination
  by (relation "measure (\<lambda>(cur, s). length s)") auto

definition splitlines :: "py_str \<Rightarrow> py_str list" where
  "splitlines s = split_from [] s"

abbreviation one_line :: "py_str \<Rightarrow> bool" where
  "one_line s \<equiv> list_all (\<lambda>c. \<not> line_break c) s"

lemma split_from_line: "one_line x \<Longrightarrow> split_from cur (x @ 10 # s) = (cur @ x) # split_from [] s"
  by (induction x arbitrary: cur) (simp_all add: line_break_def)

lemma split_from_rest: "one_line x \<Longrightarrow> cur @ x \<noteq> [] \<Longrightarrow> split_from cur x = [cur @ x]"
  by (induction x arbitrary: cur) simp_all

lemma splitlines_Nil [simp]: "splitlines [] = []"
  by (simp add: splitlines_def)

lemma splitlines_line: "one_line x \<Longrightarrow> splitlines (x @ 10 # s) = x # splitlines s"
  by (simp add: splitlines_def split_from_line)

lemma split_from_one_line: "one_line cur \<Longrightarrow> list_all one_line (split_from cur s)"
  by (induction cur s rule: split_from.induct) auto

lemma split_from_subset: "d \<in> set (split_from cur s) \<Longrightarrow> set d \<subseteq> set cur \<union> set s"
proof (induction cur s rule: split_from.induct)
  case (2 cur c cs)
  then show ?case by (fastforce split: if_splits dest: list.set_sel(2))
qed (auto split: if_splits)

lemma splitlines_subset: "d \<in> set (splitlines s) \<Longrightarrow> set d \<subseteq> set s"
  using split_from_subset [of d "[]" s] by (simp add: splitlines_def)

lemma splitlines_one_line: "list_all one_line (splitlines s)"
  by (simp add: splitlines_def split_from_one_line)

definition whitespace :: "nat \<Rightarrow> bool" where
  "whitespace c \<longleftrightarrow> 9 \<le> c \<and> c \<le> 13 \<or> 28 \<le> c \<and> c \<le> 32 \<or> 8192 \<le> c \<and> c \<le> 8202 \<or>
     c \<in> {133, 160, 5760, 8232, 8233, 8239, 8287, 12288}"

definition strip :: "py_str \<Rightarrow> py_str" where
  "strip s = rev (dropWhile whitespace (rev (dropWhile whitespace s)))"

lemma strip_line: "list_all (\<lambda>c. \<not> whitespace c) s \<Longrightarrow> strip (s @ [10]) = s"
proof -
  assume s: "list_all (\<lambda>c. \<not> whitespace c) s"
  have ten: "whitespace 10" by (simp add: whitespace_def)
  have id: "dropWhile whitespace t = t" if "list_all (\<lambda>c. \<not> whitespace c) t" for t
    using that by (cases t) auto
  show ?thesis
  proof (cases s)
    case Nil
    then show ?thesis by (simp add: strip_def ten)
  next
    case (Cons a as)
    then have "dropWhile whitespace (s @ [10]) = s @ [10]" using s by simp
    moreover have "list_all (\<lambda>c. \<not> whitespace c) (rev s)" using s by (simp add: list_all_iff)
    ultimately show ?thesis by (simp add: strip_def ten id)
  qed
qed

text \<open>\<^verbatim>\<open>s.replace(a, b)\<close> for single characters.\<close>

definition py_replace :: "nat \<Rightarrow> nat \<Rightarrow> py_str \<Rightarrow> py_str" where
  "py_replace a b s = map (\<lambda>c. if c = a then b else c) s"

section \<open>Hexadecimal text\<close>

definition hex_digit :: "nat \<Rightarrow> nat option" where
  "hex_digit c =
     (if 48 \<le> c \<and> c \<le> 57 then Some (c - 48)
      else if 65 \<le> c \<and> c \<le> 70 then Some (c - 55)
      else if 97 \<le> c \<and> c \<le> 102 then Some (c - 87)
      else None)"

text \<open>An odd number of digits or another character raises \<^verbatim>\<open>binascii.Error\<close> or \<^verbatim>\<open>ValueError\<close>.\<close>

fun a2b_hex :: "py_str \<Rightarrow> bytes option" where
  "a2b_hex [] = Some []"
| "a2b_hex [c] = None"
| "a2b_hex (c # d # s) =
     (case (hex_digit c, hex_digit d) of
        (Some h, Some l) \<Rightarrow> (case a2b_hex s of None \<Rightarrow> None | Some bs \<Rightarrow> Some ((16 * h + l) # bs))
      | _ \<Rightarrow> None)"

text \<open>The kernel's encoding of an untrusted string, two upper-case digits for each byte.\<close>

definition hex_char :: "nat \<Rightarrow> nat" where
  "hex_char n = (if n < 10 then 48 + n else 55 + n)"

definition b2a_hex :: "bytes \<Rightarrow> py_str" where
  "b2a_hex bs = concat (map (\<lambda>b. [hex_char (b div 16), hex_char (b mod 16)]) bs)"

lemma b2a_hex_simps [simp]:
  "b2a_hex [] = []" "b2a_hex (b # bs) = hex_char (b div 16) # hex_char (b mod 16) # b2a_hex bs"
  by (simp_all add: b2a_hex_def)

lemma hex_digit_char: "n < 16 \<Longrightarrow> hex_digit (hex_char n) = Some n"
  by (auto simp: hex_digit_def hex_char_def)

lemma a2b_b2a_hex: "list_all (\<lambda>b. b < 256) bs \<Longrightarrow> a2b_hex (b2a_hex bs) = Some bs"
proof (induction bs)
  case (Cons b bs)
  have "b div 16 < 16" using Cons.prems by auto
  with Cons show ?case by (simp add: hex_digit_char)
qed simp

lemma hex_not_space: "list_all (\<lambda>b. b < 256) bs \<Longrightarrow> list_all (\<lambda>c. 48 \<le> c \<and> c \<le> 70 \<and> \<not> whitespace c) (b2a_hex bs)"
proof (induction bs)
  case (Cons b bs)
  have "48 \<le> hex_char n \<and> hex_char n \<le> 70 \<and> \<not> whitespace (hex_char n)" if "n < 16" for n
    using that by (auto simp: hex_char_def whitespace_def)
  moreover have "b div 16 < 16" using Cons.prems by auto
  ultimately show ?case using Cons by simp
qed simp

section \<open>Bounded deques\<close>

text \<open>\<^verbatim>\<open>append\<close> on a \<^verbatim>\<open>deque(maxlen=n)\<close> drops the leftmost element of a full deque.\<close>

definition append_max :: "nat \<Rightarrow> 'a list \<Rightarrow> 'a \<Rightarrow> 'a list" where
  "append_max n xs x = (let ys = xs @ [x] in if length ys \<le> n then ys else drop (length ys - n) ys)"

definition last_n :: "nat \<Rightarrow> 'a list \<Rightarrow> 'a list" where
  "last_n n xs = drop (length xs - n) xs"

lemma append_max_last_n: "append_max n xs x = last_n n (xs @ [x])"
  by (simp add: append_max_def last_n_def Let_def)

lemma length_last_n [simp]: "length (last_n n xs) = min n (length xs)"
  by (simp add: last_n_def)

lemma last_n_suffix: "suffix (last_n n xs) xs"
  by (simp add: last_n_def suffix_drop)

lemma last_n_last_n_append: "last_n n (last_n n xs @ ys) = last_n n (xs @ ys)"
proof (cases "length xs \<le> n")
  case False
  then have "last_n n xs @ ys = drop (length xs - n) (xs @ ys)" by (simp add: last_n_def)
  then show ?thesis using False by (simp add: last_n_def add.commute)
qed (simp add: last_n_def)

lemma foldl_append_max: "length xs \<le> n \<Longrightarrow> foldl (append_max n) xs ys = last_n n (xs @ ys)"
proof (induction ys arbitrary: xs)
  case Nil
  then show ?case by (simp add: last_n_def)
next
  case (Cons y ys)
  have "foldl (append_max n) (append_max n xs y) ys = last_n n (append_max n xs y @ ys)"
    by (rule Cons.IH) (simp add: append_max_last_n)
  also have "\<dots> = last_n n ((xs @ [y]) @ ys)" unfolding append_max_last_n by (rule last_n_last_n_append)
  finally show ?case by simp
qed

lemma last_n_all: "length xs \<le> n \<Longrightarrow> last_n n xs = xs"
  by (simp add: last_n_def)

lemma subseq_last_n: "subseq (last_n n xs) xs"
  using last_n_suffix [of n xs] by (rule suffix_imp_subseq)

end
