(* ===== verification/Log_Receiver.thy ===== *)
theory Log_Receiver
  imports Py_Text "HOL-Library.While_Combinator"
begin

text \<open>
  The log receiver's servers, \<^verbatim>\<open>src/Log_Receiver/src/tcp_server.py\<close> and \<^verbatim>\<open>unix_server.py\<close>: a
  device connects, its data is cut into lines, each line that is an audit record is rewritten
  into the form SPADE reads and appended to three bounded deques. One deque is saved to a
  file, one is searched for heartbeat commands, one (\<^verbatim>\<open>log_buffer.py\<close>) is forwarded to SPADE.
  The shared variables of \<^verbatim>\<open>task_variable.py\<close> are fields of the same state. Sockets, files and
  the clock are outside: what they answer is an argument of the operation that calls them.
  The loops over a deque are \<^verbatim>\<open>while_option\<close> loops, so that their end is a theorem.
\<close>

section \<open>State\<close>

record task =
  create_time :: int
  expire_time :: int
  ip_address :: py_str
  execute_cmd :: py_str
  heartbeat_check :: bool

datatype ssh_result = Ssh_done | Ssh_exception | Other_exception

text \<open>What the heartbeat thread asks of its environment, with the answers.\<close>

datatype hb_call =
    Token py_str
  | Now int
  | Ssh py_str py_str py_str py_str ssh_result
  | Sleep

record receiver =
  audit_buffer :: "py_str list"
  audit_buffer_hearbeat :: "py_str list"
  audit :: "py_str list"
  iot_device :: "py_str list"
  executing_tasks :: "task list"
  saved :: "py_str \<rightharpoonup> py_str"
  sent :: "(nat \<times> bytes) list"
  hb_calls :: "hb_call list"
  hb_alive :: bool

definition receiver_init :: receiver where
  "receiver_init = \<lparr>audit_buffer = [], audit_buffer_hearbeat = [], audit = [], iot_device = [],
     executing_tasks = [], saved = Map.empty, sent = [], hb_calls = [], hb_alive = True\<rparr>"

section \<open>Rewriting of a record\<close>

definition format_audit_msg :: "string \<Rightarrow> py_str \<Rightarrow> py_str option" where
  "format_audit_msg audit_type msg =
     (if \<not> py_in (str ''audit'') msg then None
      else let fields = py_split 44 msg in
           Some (last fields @ str '' type='' @ str audit_type @ str '' '' @ hd fields @ [10]))"

definition translate_audit_log :: "py_str \<Rightarrow> py_str option" where
  "translate_audit_log raw_log =
     (if py_in (str ''syscall'') raw_log then format_audit_msg ''SYSCALL'' raw_log
      else if py_in (str ''proctitle'') raw_log then format_audit_msg ''PROCTITLE'' raw_log
      else if py_in (str ''saddr'') raw_log then format_audit_msg ''SOCKADDR'' raw_log
      else if py_in (str ''cwd'') raw_log then format_audit_msg ''CWD'' raw_log
      else if py_in (str ''item'') raw_log then format_audit_msg ''PATH'' raw_log
      else if py_in (str ''op=start'') raw_log then format_audit_msg ''DAEMON_START'' raw_log
      else if py_in (str ''op=add_rule'') raw_log then format_audit_msg ''CONFIG_CHANGE'' raw_log
      else None)"

section \<open>Connections\<close>

text \<open>The deques of \<^verbatim>\<open>TCPServer\<close> hold 1000 records, the one of \<^verbatim>\<open>log_buffer\<close> 10000.\<close>

definition store_record :: "py_str \<Rightarrow> receiver \<Rightarrow> receiver" where
  "store_record audit_log s =
     s\<lparr>audit_buffer := append_max 1000 (audit_buffer s) audit_log,
       audit_buffer_hearbeat := append_max 1000 (audit_buffer_hearbeat s) audit_log,
       audit := append_max 10000 (audit s) audit_log\<rparr>"

definition parseEventLog :: "py_str \<Rightarrow> receiver \<Rightarrow> receiver" where
  "parseEventLog data s =
     foldl (\<lambda>s d. case translate_audit_log d of None \<Rightarrow> s | Some audit_log \<Rightarrow> store_record audit_log s)
       s (splitlines data)"

text \<open>
  The thread of one connection, on what its calls of \<^verbatim>\<open>recv(26000)\<close> give: the result says
  whether the connection is closed; an empty list means the thread waits in \<^verbatim>\<open>recv\<close>.
\<close>

datatype recv_result = Data bytes | Recv_error

fun listenToClient :: "recv_result list \<Rightarrow> receiver \<Rightarrow> bool \<times> receiver" where
  "listenToClient [] s = (False, s)"
| "listenToClient (Recv_error # rs) s = (True, s)"
| "listenToClient (Data bs # rs) s =
     (case utf8_decode bs of
        None \<Rightarrow> (True, s)
      | Some data \<Rightarrow> if length data = 0 then (True, s) else listenToClient rs (parseEventLog data s))"

text \<open>The part of \<^verbatim>\<open>listen\<close> that puts a new client under heartbeat supervision.\<close>

definition accept_client :: "py_str \<Rightarrow> receiver \<Rightarrow> receiver" where
  "accept_client address s =
     (if find (\<lambda>target_ip. ip_address target_ip = address) (executing_tasks s) = None then
        if address \<notin> set (iot_device s) then s\<lparr>iot_device := iot_device s @ [address]\<rparr> else s
      else s)"

section \<open>Periodic work\<close>

text \<open>
  \<^verbatim>\<open>save_audit_log\<close>: the file name is that of the current hour, \<^verbatim>\<open>open_ok\<close> says whether the file
  could be opened; when it could not, the exception ends the thread and no timer is started.
\<close>

definition save_audit_log :: "py_str \<Rightarrow> bool \<Rightarrow> receiver \<Rightarrow> (bool \<times> receiver) option" where
  "save_audit_log save_audit_log_name open_ok s =
     (if 5 < length (audit_buffer s) then
        (case while_option (\<lambda>(temp, buf). 10 < length buf) (\<lambda>(temp, buf). (temp @ hd buf, tl buf))
                ([], audit_buffer s) of
           None \<Rightarrow> None
         | Some (temp, buf) \<Rightarrow>
             (let s1 = s\<lparr>audit_buffer := buf\<rparr> in
              if open_ok then Some (True, s1\<lparr>saved := (saved s1)(save_audit_log_name \<mapsto> temp)\<rparr>)
              else Some (False, s1)))
      else Some (True, s))"

definition proctitle :: py_str where
  "proctitle = str ''proctitle=''"

text \<open>The command line of a PROCTITLE record: decoded when it is hexadecimal text, else as it stands.\<close>

definition record_command :: "py_str \<Rightarrow> py_str option" where
  "record_command audit_log =
     (case py_find proctitle audit_log of
        None \<Rightarrow> None
      | Some idx \<Rightarrow>
          (let audit_proctilte = strip (drop (idx + length proctitle) audit_log) in
           case a2b_hex audit_proctilte of
             None \<Rightarrow> Some audit_proctilte
           | Some bs \<Rightarrow>
               (case utf8_decode bs of
                  None \<Rightarrow> Some audit_proctilte
                | Some cmd \<Rightarrow> Some (py_replace 0 32 cmd))))"

definition mark_tasks :: "py_str \<Rightarrow> task list \<Rightarrow> task list" where
  "mark_tasks cmd ts =
     map (\<lambda>i. if py_in cmd (execute_cmd i) then i\<lparr>heartbeat_check := True\<rparr> else i) ts"

definition match_record :: "receiver \<Rightarrow> receiver" where
  "match_record s =
     (let audit_log = hd (audit_buffer_hearbeat s);
          s1 = s\<lparr>audit_buffer_hearbeat := tl (audit_buffer_hearbeat s)\<rparr> in
      case record_command audit_log of
        None \<Rightarrow> s1
      | Some cmd \<Rightarrow> s1\<lparr>executing_tasks := mark_tasks cmd (executing_tasks s1)\<rparr>)"

definition logmatch :: "receiver \<Rightarrow> receiver option" where
  "logmatch s = while_option (\<lambda>s. 10 < length (audit_buffer_hearbeat s)) match_record s"

text \<open>
  One round of the loop that serves a connection of SPADE. The send may raise, which ends the
  thread; it may take only the first bytes, which the code does not look at.
\<close>

datatype send_result = Sent_all | Sent_part nat | Send_error

definition listen_client :: "nat \<Rightarrow> (bytes \<Rightarrow> send_result) \<Rightarrow> receiver \<Rightarrow> bool \<times> receiver" where
  "listen_client connection sock_send s =
     (if 30 < length (audit s) then
        let temp = hd (audit s);
            s1 = s\<lparr>audit := tl (audit s)\<rparr> in
        case sock_send (utf8_encode temp) of
          Send_error \<Rightarrow> (False, s1)
        | Sent_part n \<Rightarrow> (True, s1\<lparr>sent := sent s1 @ [(connection, take n (utf8_encode temp))]\<rparr>)
        | Sent_all \<Rightarrow> (True, s1\<lparr>sent := sent s1 @ [(connection, utf8_encode temp)]\<rparr>)
      else (True, s))"

section \<open>What the rewriting does\<close>

text \<open>The record a line stands for, as the kernel writes it: the text, a comma, the node name.\<close>

lemma format_audit_msg_node:
  assumes "py_in (str ''audit'') msg" and "44 \<notin> set msg" and "44 \<notin> set node"
  shows "format_audit_msg ty (msg @ 44 # node) =
    Some (node @ str '' type='' @ str ty @ str '' '' @ msg @ [10])"
proof -
  have "py_in (str ''audit'') (msg @ 44 # node)" by (rule py_in_append1 [OF assms(1)])
  moreover have "py_split 44 (msg @ 44 # node) = [msg, node]"
    using assms by (simp add: py_split_append py_split_none)
  ultimately show ?thesis by (simp add: format_audit_msg_def)
qed

text \<open>A rewritten record: one line of encodable characters, with the type marker in it.\<close>

definition spade_line :: "py_str \<Rightarrow> bool" where
  "spade_line l \<longleftrightarrow> (\<exists>node ty msg. l = node @ str '' type='' @ str ty @ str '' '' @ msg @ [10] \<and>
     ty \<in> {''SYSCALL'', ''PROCTITLE'', ''SOCKADDR'', ''CWD'', ''PATH'', ''DAEMON_START'', ''CONFIG_CHANGE''} \<and>
     one_line node \<and> one_line msg \<and> 44 \<notin> set node \<and> 44 \<notin> set msg \<and> list_all scalar node \<and> list_all scalar msg)"

lemma py_split_fields: "f \<in> set (py_split sep s) \<Longrightarrow> sep \<notin> set f \<and> set f \<subseteq> set s"
proof (induction s arbitrary: f)
  case (Cons c cs)
  then show ?case by (fastforce split: if_splits list.splits)
qed simp

lemma format_audit_msg_line:
  assumes "format_audit_msg ty msg = Some l" and "one_line msg" and "list_all scalar msg"
    and "ty \<in> {''SYSCALL'', ''PROCTITLE'', ''SOCKADDR'', ''CWD'', ''PATH'', ''DAEMON_START'', ''CONFIG_CHANGE''}"
  shows "spade_line l"
proof -
  have l: "l = last (py_split 44 msg) @ str '' type='' @ str ty @ str '' '' @ hd (py_split 44 msg) @ [10]"
    using assms(1) unfolding format_audit_msg_def Let_def by (metis option.distinct(1) option.inject)
  have f: "44 \<notin> set f \<and> one_line f \<and> list_all scalar f" if "f \<in> set (py_split 44 msg)" for f
    using py_split_fields [OF that] assms(2,3) by (auto simp: list_all_iff)
  show ?thesis
    unfolding spade_line_def using l assms(4) f [of "hd (py_split 44 msg)"] f [of "last (py_split 44 msg)"]
    by (intro exI [of _ "last (py_split 44 msg)"] exI [of _ ty] exI [of _ "hd (py_split 44 msg)"]) simp
qed

lemma translate_audit_log_line:
  assumes "translate_audit_log d = Some l" and "one_line d" and "list_all scalar d"
  shows "spade_line l"
proof -
  obtain ty where "format_audit_msg ty d = Some l"
    and "ty \<in> {''SYSCALL'', ''PROCTITLE'', ''SOCKADDR'', ''CWD'', ''PATH'', ''DAEMON_START'', ''CONFIG_CHANGE''}"
    using assms(1) unfolding translate_audit_log_def by (metis insert_iff option.distinct(1))
  then show ?thesis using assms(2,3) by (intro format_audit_msg_line)
qed

text \<open>The records of a text.\<close>

definition records_of :: "py_str \<Rightarrow> py_str list" where
  "records_of data = List.map_filter translate_audit_log (splitlines data)"

lemma records_of_lines:
  assumes "list_all scalar data"
  shows "list_all spade_line (records_of data)"
proof -
  have "one_line d \<and> list_all scalar d" if "d \<in> set (splitlines data)" for d
    using that splitlines_one_line [of data] splitlines_subset [OF that] assms by (auto simp: list_all_iff)
  then show ?thesis using translate_audit_log_line by (force simp: records_of_def List.map_filter_def list_all_iff)
qed

lemma spade_line_scalar: "spade_line l \<Longrightarrow> list_all scalar l"
  by (auto simp: spade_line_def list_all_iff scalar_def)

text \<open>What storing a list of records does to each of the deques, and to nothing else.\<close>

lemma foldl_store:
  assumes "length (audit_buffer s) \<le> 1000" "length (audit_buffer_hearbeat s) \<le> 1000" "length (audit s) \<le> 10000"
  shows "foldl (\<lambda>s d. case f d of None \<Rightarrow> s | Some l \<Rightarrow> store_record l s) s ds =
    s\<lparr>audit_buffer := last_n 1000 (audit_buffer s @ List.map_filter f ds),
      audit_buffer_hearbeat := last_n 1000 (audit_buffer_hearbeat s @ List.map_filter f ds),
      audit := last_n 10000 (audit s @ List.map_filter f ds)\<rparr>"
  using assms
proof (induction ds arbitrary: s)
  case Nil
  then show ?case by (simp add: last_n_all List.map_filter_simps)
next
  case (Cons d ds)
  show ?case
  proof (cases "f d")
    case None
    then show ?thesis using Cons by (simp add: List.map_filter_simps)
  next
    case (Some l)
    have ap: "last_n n (last_n n (xs @ [l]) @ ys) = last_n n (xs @ l # ys)" for n and xs ys :: "py_str list"
      using last_n_last_n_append [of n "xs @ [l]" ys] by simp
    show ?thesis
      using Some Cons.IH [of "store_record l s"]
      by (simp add: store_record_def append_max_last_n ap List.map_filter_simps)
  qed
qed

definition deques_ok :: "receiver \<Rightarrow> bool" where
  "deques_ok s \<longleftrightarrow> length (audit_buffer s) \<le> 1000 \<and> length (audit_buffer_hearbeat s) \<le> 1000 \<and> length (audit s) \<le> 10000"

lemma parseEventLog_eq:
  "deques_ok s \<Longrightarrow> parseEventLog data s =
    s\<lparr>audit_buffer := last_n 1000 (audit_buffer s @ records_of data),
      audit_buffer_hearbeat := last_n 1000 (audit_buffer_hearbeat s @ records_of data),
      audit := last_n 10000 (audit s @ records_of data)\<rparr>"
  by (simp add: parseEventLog_def records_of_def deques_ok_def foldl_store)

lemma parseEventLog_audit:
  "deques_ok s \<Longrightarrow> audit (parseEventLog data s) = last_n 10000 (audit s @ records_of data)"
  "deques_ok s \<Longrightarrow> deques_ok (parseEventLog data s)"
  by (simp_all add: parseEventLog_eq deques_ok_def)

section \<open>The loops over the deques end\<close>

lemma while_popleft:
  "while_option (\<lambda>(temp, buf). k < length buf) (\<lambda>(temp, buf). (temp @ hd buf, tl buf)) (temp, buf) =
    Some (temp @ concat (take (length buf - k) buf), drop (length buf - k) buf)"
proof (induction buf arbitrary: temp)
  case Nil
  show ?case by (subst while_option_unfold) simp
next
  case (Cons x xs)
  show ?case by (subst while_option_unfold) (use Cons in \<open>auto simp: Suc_diff_le\<close>)
qed

lemma save_audit_log_eq:
  "save_audit_log name open_ok s =
    (let k = length (audit_buffer s) - 10 in
     Some (if length (audit_buffer s) \<le> 5 then (True, s)
           else if open_ok then (True, s\<lparr>audit_buffer := drop k (audit_buffer s),
                 saved := (saved s)(name \<mapsto> concat (take k (audit_buffer s)))\<rparr>)
           else (False, s\<lparr>audit_buffer := drop k (audit_buffer s)\<rparr>)))"
  by (simp add: save_audit_log_def while_popleft Let_def)

text \<open>The commands found in a list of records, and what they do to the tasks.\<close>

definition commands_of :: "py_str list \<Rightarrow> py_str list" where
  "commands_of ls = List.map_filter record_command ls"

lemma logmatch_eq:
  "logmatch s = Some (s\<lparr>audit_buffer_hearbeat := drop (length (audit_buffer_hearbeat s) - 10) (audit_buffer_hearbeat s),
     executing_tasks := fold mark_tasks
       (commands_of (take (length (audit_buffer_hearbeat s) - 10) (audit_buffer_hearbeat s))) (executing_tasks s)\<rparr>)"
proof (induction "audit_buffer_hearbeat s" arbitrary: s)
  case Nil
  then show ?case
    unfolding logmatch_def by (subst while_option_unfold) (simp add: Nil [symmetric] commands_of_def List.map_filter_simps)
next
  case (Cons x xs)
  let ?s = "match_record s"
  have b: "audit_buffer_hearbeat ?s = xs"
    by (simp add: match_record_def Cons.hyps(2) [symmetric] Let_def split: option.splits)
  show ?case
  proof (cases "10 < length (audit_buffer_hearbeat s)")
    case True
    then have "logmatch s = logmatch ?s"
      unfolding logmatch_def by (subst while_option_unfold) simp
    also have "\<dots> = Some (?s\<lparr>audit_buffer_hearbeat := drop (length xs - 10) xs,
        executing_tasks := fold mark_tasks (commands_of (take (length xs - 10) xs)) (executing_tasks ?s)\<rparr>)"
      using Cons.hyps(1) [of ?s] b by simp
    finally have "logmatch s = Some (?s\<lparr>audit_buffer_hearbeat := drop (length xs - 10) xs,
        executing_tasks := fold mark_tasks (commands_of (take (length xs - 10) xs)) (executing_tasks ?s)\<rparr>)" .
    moreover have "length (audit_buffer_hearbeat s) - 10 = Suc (length xs - 10)"
      using True Cons.hyps(2) [symmetric] by simp
    ultimately show ?thesis
      by (simp add: match_record_def Cons.hyps(2) [symmetric] commands_of_def List.map_filter_simps Let_def
          split: option.splits)
  next
    case False
    then show ?thesis
      unfolding logmatch_def by (subst while_option_unfold) (simp add: commands_of_def List.map_filter_simps)
  qed
qed

lemma fold_mark_tasks:
  "fold mark_tasks cs ts =
    map (\<lambda>i. if list_ex (\<lambda>c. py_in c (execute_cmd i)) cs then i\<lparr>heartbeat_check := True\<rparr> else i) ts"
proof (induction cs arbitrary: ts)
  case (Cons c cs)
  have "fold mark_tasks (c # cs) ts = fold mark_tasks cs (mark_tasks c ts)" by simp
  also have "\<dots> = map (\<lambda>i. if list_ex (\<lambda>c. py_in c (execute_cmd i)) cs then i\<lparr>heartbeat_check := True\<rparr> else i) (mark_tasks c ts)"
    by (rule Cons.IH)
  finally have "fold mark_tasks (c # cs) ts =
      map (\<lambda>i. if list_ex (\<lambda>c. py_in c (execute_cmd i)) cs then i\<lparr>heartbeat_check := True\<rparr> else i) (mark_tasks c ts)" .
  then show ?case by (simp only:) (simp add: mark_tasks_def)
qed (simp add: map_idI)

lemma record_command_first:
  assumes "py_find proctitle (pre @ proctitle @ rest) = Some (length pre)"
  shows "record_command (pre @ proctitle @ rest) =
    (case a2b_hex (strip rest) of
       None \<Rightarrow> Some (strip rest)
     | Some bs \<Rightarrow> (case utf8_decode bs of None \<Rightarrow> Some (strip rest) | Some cmd \<Rightarrow> Some (py_replace 0 32 cmd)))"
  using assms by (simp add: record_command_def Let_def)

section \<open>Properties\<close>

text \<open>
  C27: the timer functions end. For every state, both loops over a deque terminate; saving
  leaves the last ten records when there are more than five, and puts the others, and nothing
  else, into the file of the hour; the search for heartbeats leaves the last ten records.
\<close>

theorem timers_terminate:
  "(\<exists>again s'. save_audit_log name True s = Some (again, s') \<and> again \<and>
      (if length (audit_buffer s) \<le> 5 then s' = s
       else audit_buffer s' = last_n 10 (audit_buffer s) \<and>
         (\<exists>out. saved s' = (saved s)(name \<mapsto> concat out) \<and> audit_buffer s = out @ audit_buffer s'))) \<and>
   (\<exists>s'. logmatch s = Some s' \<and> audit_buffer_hearbeat s' = last_n 10 (audit_buffer_hearbeat s))"
proof -
  let ?k = "length (audit_buffer s) - 10"
  have "\<exists>again s'. save_audit_log name True s = Some (again, s') \<and> again \<and>
      (if length (audit_buffer s) \<le> 5 then s' = s
       else audit_buffer s' = last_n 10 (audit_buffer s) \<and>
         (\<exists>out. saved s' = (saved s)(name \<mapsto> concat out) \<and> audit_buffer s = out @ audit_buffer s'))"
    unfolding save_audit_log_eq Let_def
    by (auto simp: last_n_def intro!: exI [of _ "take ?k (audit_buffer s)"])
  then show ?thesis by (simp add: logmatch_eq last_n_def)
qed

text \<open>
  The saved log does not survive the next timer. After a save that left more than five
  records, the next save within the same hour, half a second later and without new records,
  replaces the file's text by the empty string: the records that were written are neither in
  the file nor in the deque.
\<close>

theorem saved_log_is_overwritten:
  assumes "10 < length (audit_buffer s)"
  shows "\<exists>s1 s2. save_audit_log name True s = Some (True, s1) \<and> save_audit_log name True s1 = Some (True, s2) \<and>
    saved s1 name = Some (concat (take (length (audit_buffer s) - 10) (audit_buffer s))) \<and>
    saved s2 name = Some [] \<and> audit_buffer s2 = last_n 10 (audit_buffer s)"
  using assms by (simp add: save_audit_log_eq Let_def last_n_def)

definition eleven_saved :: receiver where
  "eleven_saved = receiver_init\<lparr>audit_buffer := replicate 11 (str ''record'')\<rparr>"

theorem saved_log_is_overwritten_witness:
  "\<exists>s1 s2. save_audit_log (str ''TEST'') True eleven_saved = Some (True, s1) \<and>
    save_audit_log (str ''TEST'') True s1 = Some (True, s2) \<and>
    saved s1 (str ''TEST'') = Some (str ''record'') \<and> saved s2 (str ''TEST'') = Some [] \<and>
    audit_buffer s2 = replicate 10 (str ''record'')"
proof -
  have "10 < length (audit_buffer eleven_saved)" by (simp add: eleven_saved_def)
  from saved_log_is_overwritten [OF this, of "str ''TEST''"] show ?thesis
    by (simp add: eleven_saved_def last_n_def receiver_init_def)
qed

text \<open>
  C28: what the search for heartbeats marks. A task is marked exactly when some record among
  all but the last ten is a PROCTITLE record whose command line occurs in the task's command;
  nothing else of a task changes, and the sender of the record is not looked at.
\<close>

theorem logmatch_marks_exactly:
  "\<exists>s'. logmatch s = Some s' \<and>
    executing_tasks s' = map (\<lambda>i. if list_ex (\<lambda>l. case record_command l of None \<Rightarrow> False | Some c \<Rightarrow> py_in c (execute_cmd i))
        (take (length (audit_buffer_hearbeat s) - 10) (audit_buffer_hearbeat s))
      then i\<lparr>heartbeat_check := True\<rparr> else i) (executing_tasks s)"
proof -
  have "list_ex f (List.map_filter g ls) = list_ex (\<lambda>l. case g l of None \<Rightarrow> False | Some c \<Rightarrow> f c) ls"
    for f :: "py_str \<Rightarrow> bool" and g :: "py_str \<Rightarrow> py_str option" and ls
    by (induction ls) (auto simp: List.map_filter_simps split: option.splits)
  then show ?thesis by (simp add: logmatch_eq fold_mark_tasks commands_of_def)
qed

text \<open>
  C29: the command line of a process comes back from its record. For the PROCTITLE record
  that the kernel writes for a command line with arguments, in hexadecimal because of the
  separating zero bytes, the receiver's rewriting followed by its decoding gives the command
  line with the zero bytes replaced by spaces.
\<close>

theorem proctitle_roundtrip:
  assumes "list_all scalar cmd"
    and "py_in (str ''audit'') stamp" and "44 \<notin> set stamp" and "44 \<notin> set node"
    and "\<not> py_in (str ''syscall'') (stamp @ proctitle @ b2a_hex (utf8_encode cmd) @ 44 # node)"
    and "py_find proctitle (node @ str '' type=PROCTITLE '' @ stamp @ proctitle @ b2a_hex (utf8_encode cmd) @ [10]) =
      Some (length (node @ str '' type=PROCTITLE '' @ stamp))"
  shows "\<exists>l. translate_audit_log (stamp @ proctitle @ b2a_hex (utf8_encode cmd) @ 44 # node) = Some l \<and>
    record_command l = Some (py_replace 0 32 cmd)"
proof -
  let ?h = "b2a_hex (utf8_encode cmd)"
  let ?l = "node @ str '' type=PROCTITLE '' @ stamp @ proctitle @ ?h @ [10]"
  have bytes: "list_all (\<lambda>b. b < 256) (utf8_encode cmd)"
    using assms(1) by (rule utf8_encode_bytes)
  have hex: "list_all (\<lambda>c. 48 \<le> c \<and> c \<le> 70 \<and> \<not> whitespace c) ?h" by (rule hex_not_space [OF bytes])
  have "py_in (str ''proctitle'') proctitle" by (simp add: proctitle_def prefix_def)
  then have p: "py_in (str ''proctitle'') (stamp @ proctitle @ ?h @ 44 # node)" by (rule py_in_append)
  have "44 \<notin> set (stamp @ proctitle @ ?h)"
    using assms(3) hex by (auto simp: proctitle_def list_all_iff)
  then have "format_audit_msg ''PROCTITLE'' ((stamp @ proctitle @ ?h) @ 44 # node) = Some ?l"
    using assms(2,4) by (subst format_audit_msg_node) (auto intro: py_in_append1)
  then have t: "translate_audit_log (stamp @ proctitle @ ?h @ 44 # node) = Some ?l"
    using assms(5) p by (simp add: translate_audit_log_def)
  have "strip (?h @ [10]) = ?h" by (rule strip_line) (use hex in \<open>simp add: list_all_iff\<close>)
  then have "record_command ?l = Some (py_replace 0 32 cmd)"
    using record_command_first [of "node @ str '' type=PROCTITLE '' @ stamp" "?h @ [10]"] assms(6)
      a2b_b2a_hex [OF bytes] utf8_roundtrip [OF assms(1)]
    by (simp del: str_simps)
  with t show ?thesis by blast
qed

definition ps_line :: py_str where
  "ps_line = str ''ps'' @ 0 # str ''0a1b''"

theorem proctitle_roundtrip_witness:
  "\<exists>l. translate_audit_log (str ''audit(1.0:7): '' @ proctitle @ b2a_hex (utf8_encode ps_line) @ 44 # str ''node=iot'') = Some l \<and>
    record_command l = Some (str ''ps 0a1b'')"
proof -
  have "py_replace 0 32 ps_line = str ''ps 0a1b''" by (simp add: py_replace_def ps_line_def)
  moreover have "\<exists>l. translate_audit_log (str ''audit(1.0:7): '' @ proctitle @ b2a_hex (utf8_encode ps_line) @ 44 # str ''node=iot'') = Some l \<and>
    record_command l = Some (py_replace 0 32 ps_line)"
    by (rule proctitle_roundtrip)
       (simp_all add: ps_line_def scalar_def proctitle_def utf8_encode_def utf8_char_def hex_char_def)
  ultimately show ?thesis by simp
qed

text \<open>
  Any device can answer for all of them. When the record of a process with the command
  line \<^verbatim>\<open>touch /tmp/\<close> is among the searched ones, from whichever device, every task whose
  command has been renewed once is marked as answered.
\<close>

theorem heartbeat_can_be_forged:
  assumes "l \<in> set (take (length (audit_buffer_hearbeat s) - 10) (audit_buffer_hearbeat s))"
    and "record_command l = Some (str ''touch /tmp/'')"
    and "list_all (\<lambda>i. prefix (str ''touch /tmp/'') (execute_cmd i)) (executing_tasks s)"
  shows "\<exists>s'. logmatch s = Some s' \<and> list_all heartbeat_check (executing_tasks s') \<and>
    map ip_address (executing_tasks s') = map ip_address (executing_tasks s)"
proof -
  let ?cs = "commands_of (take (length (audit_buffer_hearbeat s) - 10) (audit_buffer_hearbeat s))"
  have "str ''touch /tmp/'' \<in> set ?cs"
    using assms(1,2) by (force simp: commands_of_def List.map_filter_def)
  moreover have "py_in (str ''touch /tmp/'') (execute_cmd i)" if "i \<in> set (executing_tasks s)" for i
    using that assms(3) py_in_append1 [OF py_in_refl] by (fastforce simp: list_all_iff prefix_def simp del: str_simps)
  ultimately have "list_ex (\<lambda>c. py_in c (execute_cmd i)) ?cs" if "i \<in> set (executing_tasks s)" for i
    using that unfolding list_ex_iff by blast
  then show ?thesis by (simp add: logmatch_eq fold_mark_tasks list_all_iff)
qed

definition renewed_task :: "string \<Rightarrow> string \<Rightarrow> task" where
  "renewed_task ip token = \<lparr>create_time = 0, expire_time = 15000000, ip_address = str ip,
     execute_cmd = str ''touch /tmp/'' @ str token @ str '';optee_example_watchdog'', heartbeat_check = False\<rparr>"

definition forged_record :: py_str where
  "forged_record = str ''node=evil type=PROCTITLE audit(1.0:7): proctitle=746F756368002F746D702F'' @ [10]"

definition two_supervised :: receiver where
  "two_supervised = receiver_init\<lparr>executing_tasks := [renewed_task ''10.0.0.1'' ''00ff'', renewed_task ''10.0.0.2'' ''1234''],
     audit_buffer_hearbeat := forged_record # replicate 10 []\<rparr>"

theorem heartbeat_can_be_forged_witness:
  "translate_audit_log (str ''audit(1.0:7): proctitle=746F756368002F746D702F,node=evil'') = Some forged_record \<and>
   (\<exists>s'. logmatch two_supervised = Some s' \<and> list_all heartbeat_check (executing_tasks s') \<and>
     map ip_address (executing_tasks s') = [str ''10.0.0.1'', str ''10.0.0.2''])"
proof -
  have "translate_audit_log (str ''audit(1.0:7): proctitle=746F756368002F746D702F,node=evil'') = Some forged_record"
    by (simp add: translate_audit_log_def format_audit_msg_def forged_record_def)
  moreover have "record_command forged_record = Some (str ''touch /tmp/'')"
    by (simp add: record_command_def forged_record_def proctitle_def strip_def whitespace_def hex_digit_def
        utf8_decode.simps utf8_next_def py_replace_def)
  moreover have "forged_record \<in> set (take (length (audit_buffer_hearbeat two_supervised) - 10) (audit_buffer_hearbeat two_supervised))"
    by (simp add: two_supervised_def)
  moreover have "list_all (\<lambda>i. prefix (str ''touch /tmp/'') (execute_cmd i)) (executing_tasks two_supervised)"
    by (simp add: two_supervised_def renewed_task_def prefix_def del: str_simps)
  moreover have "map ip_address (executing_tasks two_supervised) = [str ''10.0.0.1'', str ''10.0.0.2'']"
    by (simp add: two_supervised_def renewed_task_def)
  ultimately show ?thesis using heartbeat_can_be_forged [of forged_record two_supervised] by simp
qed

text \<open>
  Which fields of a record reach SPADE. The rewritten record consists of the last field,
  the type and the first field of the comma-separated record; for a record of the kernel that
  is the node name and the text up to its first comma. Fields in between are dropped.
\<close>

theorem translate_keeps_first_and_last:
  assumes "translate_audit_log (first @ middle @ 44 # node) = Some l"
    and "middle = [] \<or> hd middle = 44" and "44 \<notin> set first" and "44 \<notin> set node"
  shows "\<exists>ty. l = node @ str '' type='' @ str ty @ str '' '' @ first @ [10]"
proof -
  obtain ty where f: "format_audit_msg ty (first @ middle @ 44 # node) = Some l"
    using assms(1) unfolding translate_audit_log_def by (metis option.distinct(1))
  obtain ms where sp: "py_split 44 (first @ middle @ 44 # node) = first # ms @ [node]"
    using assms(2-4) py_split_append [of 44 first "tl middle @ 44 # node"] py_split_append [of 44 "tl middle" node]
    by (cases middle) (auto simp: py_split_append py_split_none)
  from f have "l = last (first # ms @ [node]) @ str '' type='' @ str ty @ str '' '' @ hd (first # ms @ [node]) @ [10]"
    unfolding format_audit_msg_def Let_def sp [symmetric] by (metis option.distinct(1) option.inject)
  then show ?thesis by auto
qed

theorem translate_keeps_first_and_last_witness:
  "\<exists>ty. Some (str ''node=iot type=PATH audit(1.0:7): item=0 name=a'' @ [10]) =
     translate_audit_log (str ''audit(1.0:7): item=0 name=a,b,node=iot'') \<and>
   str ''node=iot type=PATH audit(1.0:7): item=0 name=a'' @ [10] =
     str ''node=iot'' @ str '' type='' @ str ty @ str '' '' @ str ''audit(1.0:7): item=0 name=a'' @ [10]"
proof -
  have t: "translate_audit_log (str ''audit(1.0:7): item=0 name=a'' @ str '',b'' @ 44 # str ''node=iot'') =
      Some (str ''node=iot type=PATH audit(1.0:7): item=0 name=a'' @ [10])"
    by (simp add: translate_audit_log_def format_audit_msg_def)
  from translate_keeps_first_and_last [OF t] t show ?thesis by simp
qed

text \<open>
  A record that arrives in two parts is not put together again. When the data of a
  record is cut into two calls of \<^verbatim>\<open>recv\<close>, each part is treated as a record of its own.
\<close>

theorem split_record_is_not_reassembled:
  assumes "list_all (\<lambda>b. b < 128) (u @ v)" and "one_line (u @ v)" and "u \<noteq> []" and "v \<noteq> []" and "deques_ok s"
  shows "\<exists>s'. listenToClient [Data u, Data (v @ [10])] s = (False, s') \<and>
    audit s' = last_n 10000 (audit s @ List.map_filter translate_audit_log [u, v])"
proof -
  have d: "utf8_decode u = Some u" "utf8_decode (v @ [10]) = Some (v @ [10])"
    using assms(1) by (simp_all add: utf8_decode_ascii)
  have "split_from [] u = [u]"
    using split_from_rest [of u "[]"] assms(2,3) by simp
  then have u: "records_of u = List.map_filter translate_audit_log [u]"
    by (simp add: records_of_def splitlines_def)
  have v: "records_of (v @ [10]) = List.map_filter translate_audit_log [v]"
    using splitlines_line [of v "[]"] assms(2) by (simp add: records_of_def)
  let ?s = "parseEventLog u s"
  have "audit (parseEventLog (v @ [10]) ?s) = last_n 10000 (last_n 10000 (audit s @ records_of u) @ records_of (v @ [10]))"
    using assms(5) by (simp only: parseEventLog_audit)
  also have "\<dots> = last_n 10000 ((audit s @ records_of u) @ records_of (v @ [10]))"
    by (rule last_n_last_n_append)
  also have "\<dots> = last_n 10000 (audit s @ List.map_filter translate_audit_log [u, v])"
    unfolding u v by (simp add: List.map_filter_simps split: option.splits)
  finally show ?thesis using d assms(3) by simp
qed

theorem split_record_is_not_reassembled_witness:
  "translate_audit_log (str ''audit(1.0:7): proctitle=7073,node=iot'') \<noteq> None \<and>
   (\<exists>s'. listenToClient [Data (str ''audit(1.0:7): proc''), Data (str ''title=7073,node=iot'' @ [10])] receiver_init = (False, s') \<and>
     audit s' = [])"
proof -
  have "list_all (\<lambda>b. b < 128) (str ''audit(1.0:7): proc'' @ str ''title=7073,node=iot'')"
    "one_line (str ''audit(1.0:7): proc'' @ str ''title=7073,node=iot'')"
    "deques_ok receiver_init" by (simp_all add: line_break_def deques_ok_def receiver_init_def)
  from split_record_is_not_reassembled [OF this(1,2) _ _ this(3)]
  have "\<exists>s'. listenToClient [Data (str ''audit(1.0:7): proc''), Data (str ''title=7073,node=iot'' @ [10])] receiver_init = (False, s') \<and>
     audit s' = last_n 10000 (audit receiver_init @ List.map_filter translate_audit_log [str ''audit(1.0:7): proc'', str ''title=7073,node=iot''])"
    by simp
  moreover have "List.map_filter translate_audit_log [str ''audit(1.0:7): proc'', str ''title=7073,node=iot''] = []"
    by (simp add: List.map_filter_simps translate_audit_log_def)
  moreover have "translate_audit_log (str ''audit(1.0:7): proctitle=7073,node=iot'') \<noteq> None"
    by (simp add: translate_audit_log_def format_audit_msg_def)
  ultimately show ?thesis by (simp only:) (simp add: receiver_init_def last_n_def)
qed

end
