(* ===== verification/Heartbeat.thy ===== *)
theory Heartbeat
  imports Log_Receiver "HOL-Library.Multiset"
begin

text \<open>
  The heartbeat thread of the log receiver, \<^verbatim>\<open>src/Log_Receiver/src/main.py\<close>: every newly
  connected device gets a task and a command over SSH, and a task that is not answered in
  time is dropped. Random tokens, the clock and the SSH library answer as functions of the
  calls made so far; times are in microseconds, the resolution of \<^verbatim>\<open>datetime\<close>.
\<close>

section \<open>Operations\<close>

record hb_env =
  token_hex :: "hb_call list \<Rightarrow> py_str"
  now :: "hb_call list \<Rightarrow> int"
  ssh_exec :: "hb_call list \<Rightarrow> py_str \<Rightarrow> py_str \<Rightarrow> py_str \<Rightarrow> py_str \<Rightarrow> ssh_result"

datatype outcome = Returned | Raised

abbreviation seconds :: "int \<Rightarrow> int" where
  "seconds n \<equiv> n * 1000000"

text \<open>The constants at the head of the file; the port is \<^verbatim>\<open>server_port\<close> there.\<close>

definition sock_file :: string where
  "sock_file = ''/var/run/iot_events''"

definition receiver_port :: int where
  "receiver_port = 8080"

definition hb_add :: "hb_call \<Rightarrow> receiver \<Rightarrow> receiver" where
  "hb_add c s = s\<lparr>hb_calls := hb_calls s @ [c]\<rparr>"

lemma hb_add_simps [simp]:
  "audit_buffer (hb_add c s) = audit_buffer s" "audit_buffer_hearbeat (hb_add c s) = audit_buffer_hearbeat s"
  "audit (hb_add c s) = audit s" "iot_device (hb_add c s) = iot_device s"
  "executing_tasks (hb_add c s) = executing_tasks s" "saved (hb_add c s) = saved s" "sent (hb_add c s) = sent s"
  "hb_calls (hb_add c s) = hb_calls s @ [c]" "hb_alive (hb_add c s) = hb_alive s"
  by (simp_all add: hb_add_def)

definition reset_command :: py_str where
  "reset_command = str '';optee_example_watchdog''"

definition register_task :: "hb_env \<Rightarrow> py_str \<Rightarrow> py_str \<Rightarrow> receiver \<Rightarrow> receiver" where
  "register_task E target_ip command s =
     (let register_time = now E (hb_calls s);
          expiry = register_time + seconds 180 in
      (hb_add (Now register_time) s)\<lparr>executing_tasks := executing_tasks s @
         [\<lparr>create_time = register_time, expire_time = expiry, ip_address = target_ip,
           execute_cmd = command, heartbeat_check = False\<rparr>]\<rparr>)"

text \<open>Only the exceptions of the SSH library are caught; a refused connection is another one.\<close>

definition execute_command ::
    "hb_env \<Rightarrow> py_str \<Rightarrow> py_str \<Rightarrow> py_str \<Rightarrow> py_str \<Rightarrow> receiver \<Rightarrow> outcome \<times> receiver" where
  "execute_command E client_ip user password command s =
     (let r = ssh_exec E (hb_calls s) client_ip user password command;
          s1 = hb_add (Ssh client_ip user password command r) s in
      (if r = Other_exception then Raised else Returned, s1))"

text \<open>\<^verbatim>\<open>updated_task\<close> on the task at position \<^verbatim>\<open>k\<close> of the list.\<close>

definition set_task :: "nat \<Rightarrow> (task \<Rightarrow> task) \<Rightarrow> receiver \<Rightarrow> receiver" where
  "set_task k f s = s\<lparr>executing_tasks := (executing_tasks s)[k := f (executing_tasks s ! k)]\<rparr>"

definition updated_task :: "hb_env \<Rightarrow> nat \<Rightarrow> receiver \<Rightarrow> outcome \<times> receiver" where
  "updated_task E k s =
     (let s1 = set_task k (\<lambda>t. t\<lparr>heartbeat_check := False\<rparr>) s;
          token = token_hex E (hb_calls s1);
          s2 = hb_add (Token token) s1;
          command = str ''touch /tmp/'' @ token @ reset_command;
          (out, s3) = execute_command E (ip_address (executing_tasks s2 ! k)) (str ''root'') (str ''toor'') command s2 in
      if out = Raised then (Raised, s3)
      else
        let t = now E (hb_calls s3) in
        (Returned, set_task k (\<lambda>i. i\<lparr>expire_time := t + seconds 15, execute_cmd := command\<rparr>) (hb_add (Now t) s3)))"

lemma execute_command_state:
  "execute_command E ip u p c s = (out, s') \<Longrightarrow>
    s' = hb_add (Ssh ip u p c (ssh_exec E (hb_calls s) ip u p c)) s \<and>
    out = (if ssh_exec E (hb_calls s) ip u p c = Other_exception then Raised else Returned)"
  by (auto simp: execute_command_def Let_def)

lemma register_task_fields [simp]:
  "iot_device (register_task E ip c s) = iot_device s"
  "executing_tasks (register_task E ip c s) = executing_tasks s @
     [\<lparr>create_time = now E (hb_calls s), expire_time = now E (hb_calls s) + seconds 180, ip_address = ip,
       execute_cmd = c, heartbeat_check = False\<rparr>]"
  "audit_buffer (register_task E ip c s) = audit_buffer s" "audit (register_task E ip c s) = audit s"
  "audit_buffer_hearbeat (register_task E ip c s) = audit_buffer_hearbeat s"
  "saved (register_task E ip c s) = saved s" "sent (register_task E ip c s) = sent s"
  "hb_alive (register_task E ip c s) = hb_alive s"
  "hb_calls (register_task E ip c s) = hb_calls s @ [Now (now E (hb_calls s))]"
  by (simp_all add: register_task_def Let_def)

lemma updated_task_length: "updated_task E k s = (out, s') \<Longrightarrow> length (executing_tasks s') = length (executing_tasks s)"
  by (auto simp: updated_task_def set_task_def Let_def dest!: execute_command_state split: prod.splits if_splits)

text \<open>
  \<^verbatim>\<open>check_expire\<close> iterates over the list by position while it removes elements of the same
  list; \<^verbatim>\<open>remove\<close> takes out the first task equal to the given one. \<^verbatim>\<open>expire_one\<close> is the body of
  the loop.
\<close>

definition expire_one :: "hb_env \<Rightarrow> nat \<Rightarrow> receiver \<Rightarrow> outcome \<times> receiver" where
  "expire_one E k s =
     (let (out, s1) = (if heartbeat_check (executing_tasks s ! k) then updated_task E k s else (Returned, s)) in
      if out = Raised then (Raised, s1)
      else
        let t = now E (hb_calls s1);
            s2 = hb_add (Now t) s1;
            i = executing_tasks s2 ! k in
        (Returned,
         if expire_time i \<le> t then s2\<lparr>executing_tasks := remove1 i (executing_tasks s2)\<rparr> else s2))"

lemma expire_one_length: "expire_one E k s = (out, s') \<Longrightarrow> length (executing_tasks s') \<le> length (executing_tasks s)"
  using updated_task_length [of E k s]
  by (auto simp: expire_one_def Let_def length_remove1 split: prod.splits if_splits)

function check_expire_from :: "hb_env \<Rightarrow> nat \<Rightarrow> receiver \<Rightarrow> outcome \<times> receiver" where
  "check_expire_from E k s =
     (if k < length (executing_tasks s) then
        let (out, s1) = expire_one E k s in
        if out = Raised then (Raised, s1) else check_expire_from E (Suc k) s1
      else (Returned, s))"
  by pat_completeness auto
termination
proof (relation "measure (\<lambda>(E, k, s). length (executing_tasks s) - k)", goal_cases)
  case (2 E k s p out s1)
  then show ?case using expire_one_length [of E k s out s1] by simp
qed simp

declare check_expire_from.simps [simp del]

definition check_expire :: "hb_env \<Rightarrow> receiver \<Rightarrow> outcome \<times> receiver" where
  "check_expire E s = check_expire_from E 0 s"

text \<open>The inner loop of \<^verbatim>\<open>run\<close>: devices are taken from the right end of the deque.\<close>

definition register_one :: "hb_env \<Rightarrow> py_str \<Rightarrow> receiver \<Rightarrow> outcome \<times> receiver" where
  "register_one E key_command s =
     (let target_ip = last (iot_device s);
          s1 = register_task E target_ip key_command (s\<lparr>iot_device := butlast (iot_device s)\<rparr>) in
      execute_command E target_ip (str ''root'') (str ''toor'') (key_command @ reset_command) s1)"

lemma register_one_state:
  "register_one E c s = (out, s') \<Longrightarrow> iot_device s' = butlast (iot_device s)"
  by (auto simp: register_one_def Let_def dest!: execute_command_state)

function register_devices :: "hb_env \<Rightarrow> py_str \<Rightarrow> receiver \<Rightarrow> outcome \<times> receiver" where
  "register_devices E key_command s =
     (if iot_device s = [] then (Returned, s)
      else
        let (out, s1) = register_one E key_command s in
        if out = Raised then (Raised, s1) else register_devices E key_command s1)"
  by pat_completeness auto
termination
proof (relation "measure (\<lambda>(E, c, s). length (iot_device s))", goal_cases)
  case (2 E c s p out s1)
  then show ?case using register_one_state [of E c s out s1] by simp
qed simp

declare register_devices.simps [simp del]

text \<open>One round of the loop of \<^verbatim>\<open>run\<close>.\<close>

definition heartbeat_round :: "hb_env \<Rightarrow> receiver \<Rightarrow> outcome \<times> receiver" where
  "heartbeat_round E s =
     (let token = token_hex E (hb_calls s);
          s1 = hb_add (Token token) s;
          (out, s2) = register_devices E (str ''ps '' @ token) s1 in
      if out = Raised then (Raised, s2)
      else
        let (out3, s3) = check_expire E s2 in
        if out3 = Raised then (Raised, s3) else (Returned, hb_add Sleep s3))"

section \<open>What a round keeps\<close>

text \<open>A property kept by the parts of a round is kept by the round.\<close>

lemma check_expire_from_keeps:
  assumes "check_expire_from E k s = (out, s')" and "P s"
    and one: "\<And>k s out s'. P s \<Longrightarrow> k < length (executing_tasks s) \<Longrightarrow> expire_one E k s = (out, s') \<Longrightarrow> P s'"
  shows "P s'"
  using assms(1,2)
proof (induction "length (executing_tasks s) - k" arbitrary: k s rule: less_induct)
  case less
  show ?case
  proof (cases "k < length (executing_tasks s)")
    case True
    obtain o1 s1 where x: "expire_one E k s = (o1, s1)" by force
    have P1: "P s1" by (rule one [OF less.prems(2) True x])
    show ?thesis
    proof (cases "o1 = Raised")
      case False
      then have "check_expire_from E (Suc k) s1 = (out, s')"
        using less.prems(1) True x by (subst (asm) check_expire_from.simps) simp
      then show ?thesis by (rule less.hyps [rotated, OF _ P1]) (use True expire_one_length [OF x] in simp)
    qed (use less.prems(1) True x P1 in \<open>subst (asm) check_expire_from.simps, simp\<close>)
  qed (use less.prems in \<open>subst (asm) check_expire_from.simps, simp\<close>)
qed

lemma register_devices_keeps:
  assumes "register_devices E c s = (out, s')" and "P s"
    and one: "\<And>s out s'. P s \<Longrightarrow> iot_device s \<noteq> [] \<Longrightarrow> register_one E c s = (out, s') \<Longrightarrow> P s'"
  shows "P s'"
  using assms(1,2)
proof (induction "length (iot_device s)" arbitrary: s rule: less_induct)
  case less
  show ?case
  proof (cases "iot_device s = []")
    case False
    obtain o1 s1 where x: "register_one E c s = (o1, s1)" by force
    have P1: "P s1" by (rule one [OF less.prems(2) False x])
    show ?thesis
    proof (cases "o1 = Raised")
      case nr: False
      have "register_devices E c s1 = (out, s')"
        using less.prems(1) False x nr by (subst (asm) register_devices.simps) simp
      then show ?thesis by (rule less.hyps [rotated, OF _ P1]) (use False register_one_state [OF x] in simp)
    qed (use less.prems(1) False x P1 in \<open>subst (asm) register_devices.simps, simp\<close>)
  qed (use less.prems in \<open>subst (asm) register_devices.simps, simp\<close>)
qed

lemma heartbeat_round_keeps:
  assumes "heartbeat_round E s = (out, s')" and "P s"
    and add: "\<And>c s. P s \<Longrightarrow> P (hb_add c s)"
    and reg: "\<And>s out s'. P s \<Longrightarrow> iot_device s \<noteq> [] \<Longrightarrow>
      register_one E (str ''ps '' @ token_hex E (hb_calls start)) s = (out, s') \<Longrightarrow> P s'"
    and ex: "\<And>k s out s'. P s \<Longrightarrow> k < length (executing_tasks s) \<Longrightarrow> expire_one E k s = (out, s') \<Longrightarrow> P s'"
    and "start = s"
  shows "P s'"
proof -
  let ?c = "str ''ps '' @ token_hex E (hb_calls s)"
  obtain o2 s2 where r: "register_devices E ?c (hb_add (Token (token_hex E (hb_calls s))) s) = (o2, s2)" by force
  have P2: "P s2"
    by (rule register_devices_keeps [where P = P, OF r]) (use add [OF assms(2)] reg assms(6) in auto)
  obtain o3 s3 where x: "check_expire_from E 0 s2 = (o3, s3)" by force
  have P3: "P s3" by (rule check_expire_from_keeps [where P = P, OF x P2]) (rule ex)
  show ?thesis
    using assms(1) r x P2 P3 add [OF P3] by (auto simp: heartbeat_round_def check_expire_def Let_def split: if_splits)
qed

definition hb_frame :: "receiver \<Rightarrow> receiver \<Rightarrow> bool" where
  "hb_frame s s' \<longleftrightarrow> audit_buffer s' = audit_buffer s \<and> audit_buffer_hearbeat s' = audit_buffer_hearbeat s \<and>
     audit s' = audit s \<and> saved s' = saved s \<and> sent s' = sent s \<and> hb_alive s' = hb_alive s"

lemma hb_frame_basic [simp]:
  "hb_frame s (hb_add c t) = hb_frame s t" "hb_frame s (set_task k f t) = hb_frame s t"
  "hb_frame s (t\<lparr>executing_tasks := ts\<rparr>) = hb_frame s t" "hb_frame s (t\<lparr>iot_device := ds\<rparr>) = hb_frame s t"
  "hb_frame s (register_task E ip cmd t) = hb_frame s t" "hb_frame s s"
  by (simp_all add: hb_frame_def set_task_def)

lemma updated_task_frame: "updated_task E k t = (out, t') \<Longrightarrow> hb_frame s t' = hb_frame s t"
  by (auto simp: updated_task_def Let_def dest!: execute_command_state split: prod.splits if_splits)

lemma heartbeat_round_frame:
  assumes "heartbeat_round E s = (out, s')"
  shows "hb_frame s s'"
  by (rule heartbeat_round_keeps [where P = "hb_frame s", OF assms])
     (auto simp: expire_one_def register_one_def Let_def updated_task_frame dest!: execute_command_state
       split: prod.splits if_splits)

section \<open>Devices and tasks\<close>

text \<open>The addresses under supervision, waiting for their first command or with a task.\<close>

definition supervised :: "receiver \<Rightarrow> py_str list" where
  "supervised s = iot_device s @ map ip_address (executing_tasks s)"

text \<open>A task's command is one of the two the heartbeat sends.\<close>

definition task_ok :: "task \<Rightarrow> bool" where
  "task_ok t \<longleftrightarrow> prefix (str ''ps '') (execute_cmd t) \<or> prefix (str ''touch /tmp/'') (execute_cmd t)"

lemma set_task_ips:
  "k < length (executing_tasks s) \<Longrightarrow> (\<And>t. ip_address (f t) = ip_address t) \<Longrightarrow>
    map ip_address (executing_tasks (set_task k f s)) = map ip_address (executing_tasks s)"
  by (simp add: set_task_def map_update list_update_same_conv)

lemma set_task_other [simp]:
  "iot_device (set_task k f s) = iot_device s" "length (executing_tasks (set_task k f s)) = length (executing_tasks s)"
  "hb_calls (set_task k f s) = hb_calls s"
  by (simp_all add: set_task_def)

text \<open>What one update does to the task at its position, when the SSH call does not raise.\<close>

lemma updated_task_outcome:
  assumes "updated_task E k s = (out, s')" and "k < length (executing_tasks s)"
  shows "iot_device s' = iot_device s"
    and "map ip_address (executing_tasks s') = map ip_address (executing_tasks s)"
    and "list_all task_ok (executing_tasks s) \<Longrightarrow> list_all task_ok (executing_tasks s')"
proof -
  let ?s1 = "set_task k (\<lambda>t. t\<lparr>heartbeat_check := False\<rparr>) s"
  let ?tok = "token_hex E (hb_calls s)"
  let ?c = "str ''touch /tmp/'' @ ?tok @ reset_command"
  have s1: "map ip_address (executing_tasks ?s1) = map ip_address (executing_tasks s)"
    by (rule set_task_ips [OF assms(2)]) simp
  have ok1: "list_all task_ok (executing_tasks ?s1)" if "list_all task_ok (executing_tasks s)"
    using that assms(2) by (auto simp: set_task_def list_all_length nth_list_update task_ok_def)
  obtain o3 s3 where x: "execute_command E (ip_address (executing_tasks (hb_add (Token ?tok) ?s1) ! k)) (str ''root'')
      (str ''toor'') ?c (hb_add (Token ?tok) ?s1) = (o3, s3)" by force
  note st = execute_command_state [OF x, THEN conjunct1]
  have "iot_device s' = iot_device s \<and>
      map ip_address (executing_tasks s') = map ip_address (executing_tasks s) \<and>
      (list_all task_ok (executing_tasks s) \<longrightarrow> list_all task_ok (executing_tasks s'))"
  proof (cases "o3 = Raised")
    case True
    then have "s' = s3" using assms(1) x by (simp add: updated_task_def Let_def)
    then show ?thesis using s1 ok1 st by simp
  next
    case False
    then have s': "s' = set_task k (\<lambda>i. i\<lparr>expire_time := now E (hb_calls s3) + seconds 15, execute_cmd := ?c\<rparr>)
        (hb_add (Now (now E (hb_calls s3))) s3)"
      using assms(1) x by (simp add: updated_task_def Let_def)
    have k3: "k < length (executing_tasks (hb_add (Now (now E (hb_calls s3))) s3))" using st assms(2) by simp
    have "map ip_address (executing_tasks s') = map ip_address (executing_tasks s)"
      using set_task_ips [OF k3, of "\<lambda>i. i\<lparr>expire_time := now E (hb_calls s3) + seconds 15, execute_cmd := ?c\<rparr>"] s' st s1
      by simp
    moreover have "list_all task_ok (executing_tasks s')" if "list_all task_ok (executing_tasks s)"
      using ok1 [OF that] s' st k3 by (auto simp: set_task_def list_all_length nth_list_update task_ok_def)
    ultimately show ?thesis using s' st by simp
  qed
  then show "iot_device s' = iot_device s"
    and "map ip_address (executing_tasks s') = map ip_address (executing_tasks s)"
    and "list_all task_ok (executing_tasks s) \<Longrightarrow> list_all task_ok (executing_tasks s')" by blast+
qed

lemma mset_map_remove1: "mset (map f (remove1 x xs)) \<subseteq># mset (map f xs)"
  by (simp add: image_mset_subseteq_mono)

lemma expire_one_supervised:
  assumes "expire_one E k s = (out, s')" and "k < length (executing_tasks s)"
  shows "mset (supervised s') \<subseteq># mset (supervised s)"
    and "list_all task_ok (executing_tasks s) \<Longrightarrow> list_all task_ok (executing_tasks s')"
proof -
  obtain o1 s1 where u: "(if heartbeat_check (executing_tasks s ! k) then updated_task E k s else (Returned, s)) = (o1, s1)"
    by force
  have d: "iot_device s1 = iot_device s" "map ip_address (executing_tasks s1) = map ip_address (executing_tasks s)"
      "list_all task_ok (executing_tasks s) \<Longrightarrow> list_all task_ok (executing_tasks s1)"
    using u updated_task_outcome [OF _ assms(2)] by (auto split: if_splits)
  have s': "iot_device s' = iot_device s1 \<and>
      (executing_tasks s' = executing_tasks s1 \<or> (\<exists>i. executing_tasks s' = remove1 i (executing_tasks s1)))"
    using assms(1) u by (auto simp: expire_one_def Let_def split: if_splits)
  then show "mset (supervised s') \<subseteq># mset (supervised s)"
    using d(1,2) mset_map_remove1 [of ip_address _ "executing_tasks s1"]
    by (auto simp del: mset_map simp: supervised_def)
  show "list_all task_ok (executing_tasks s')" if "list_all task_ok (executing_tasks s)"
    using s' d(3) [OF that] by (auto simp: list_all_iff dest: notin_set_remove1)
qed

lemma register_one_supervised:
  assumes "register_one E (str ''ps '' @ c) s = (out, s')" and "iot_device s \<noteq> []"
  shows "mset (supervised s') = mset (supervised s)"
    and "list_all task_ok (executing_tasks s) \<Longrightarrow> list_all task_ok (executing_tasks s')"
proof -
  obtain ds ip where ds: "iot_device s = ds @ [ip]" using assms(2) by (metis append_butlast_last_id)
  show "mset (supervised s') = mset (supervised s)"
    and "list_all task_ok (executing_tasks s) \<Longrightarrow> list_all task_ok (executing_tasks s')"
    using assms(1) ds by (auto simp: register_one_def supervised_def task_ok_def Let_def dest!: execute_command_state)
qed

lemma heartbeat_round_supervised:
  assumes "heartbeat_round E s = (out, s')" and "list_all task_ok (executing_tasks s)"
  shows "mset (supervised s') \<subseteq># mset (supervised s) \<and> list_all task_ok (executing_tasks s')"
proof (rule heartbeat_round_keeps [OF assms(1), where start = s])
  fix t out t'
  assume P: "mset (supervised t) \<subseteq># mset (supervised s) \<and> list_all task_ok (executing_tasks t)"
  {
    assume "iot_device t \<noteq> []" "register_one E (str ''ps '' @ token_hex E (hb_calls s)) t = (out, t')"
    then show "mset (supervised t') \<subseteq># mset (supervised s) \<and> list_all task_ok (executing_tasks t')"
      using register_one_supervised [of E _ t out t'] P by simp
  next
    fix k
    assume "k < length (executing_tasks t)" "expire_one E k t = (out, t')"
    then show "mset (supervised t') \<subseteq># mset (supervised s) \<and> list_all task_ok (executing_tasks t')"
      using expire_one_supervised [of E k t out t'] P by (meson subset_mset.order_trans)
  }
qed (use assms(2) in \<open>auto simp: supervised_def\<close>)

section \<open>Expiry\<close>

text \<open>
  One pass over a list that removes while it iterates: the element behind a removed one is
  never looked at.
\<close>

fun sweep :: "('a \<Rightarrow> bool) \<Rightarrow> 'a list \<Rightarrow> 'a list" where
  "sweep p [] = []"
| "sweep p [x] = (if p x then [] else [x])"
| "sweep p (x # y # ys) = (if p x then y # sweep p ys else x # sweep p (y # ys))"

lemma set_sweep: "set (sweep p xs) \<subseteq> set xs"
  by (induction p xs rule: sweep.induct) auto

lemma distinct_sweep: "distinct xs \<Longrightarrow> distinct (sweep p xs)"
  by (induction p xs rule: sweep.induct) (use set_sweep in fastforce)+

lemma filter_sweep: "filter (\<lambda>x. \<not> p x) (sweep p xs) = filter (\<lambda>x. \<not> p x) xs"
  by (induction p xs rule: sweep.induct) auto

lemma sweep_removes: "length (filter p (sweep p xs)) \<le> length (filter p xs) - 1"
proof (induction p xs rule: sweep.induct)
  case (3 p x y ys)
  show ?case
  proof (cases "p x")
    case True
    have "length (filter p (sweep p ys)) \<le> length (filter p ys)" using 3(1) [OF True] by simp
    with True show ?thesis by simp
  qed (use 3(2) in simp)
qed auto

lemma sweeps_remove_all:
  "length (filter p xs) \<le> n \<Longrightarrow> (sweep p ^^ n) xs = filter (\<lambda>x. \<not> p x) xs"
proof (induction n arbitrary: xs)
  case 0
  then show ?case by (simp add: filter_empty_conv filter_id_conv)
next
  case (Suc n)
  have "length (filter p (sweep p xs)) \<le> n" using sweep_removes [of p xs] Suc.prems by simp
  from Suc.IH [OF this] show ?case by (simp add: funpow_swap1 filter_sweep)
qed

text \<open>
  The clock during a pass: all readings lie between \<^verbatim>\<open>lo\<close> and \<^verbatim>\<open>hi\<close>, and no task expires in
  between.
\<close>

definition clock_within :: "hb_env \<Rightarrow> int \<Rightarrow> int \<Rightarrow> bool" where
  "clock_within E lo hi \<longleftrightarrow> (\<forall>t. lo \<le> now E t \<and> now E t < hi)"

definition settled :: "int \<Rightarrow> int \<Rightarrow> task list \<Rightarrow> bool" where
  "settled lo hi ts \<longleftrightarrow> distinct ts \<and> list_all (\<lambda>i. \<not> heartbeat_check i \<and> (expire_time i \<le> lo \<or> hi \<le> expire_time i)) ts"

lemma expire_one_settled:
  assumes "clock_within E lo hi" and "executing_tasks s = us @ x # ys" and "settled lo hi (us @ x # ys)"
  shows "\<exists>s'. expire_one E (length us) s = (Returned, s') \<and>
    executing_tasks s' = us @ (if expire_time x \<le> lo then [] else [x]) @ ys"
proof -
  let ?t = "now E (hb_calls s)"
  have x: "\<not> heartbeat_check x" "expire_time x \<le> lo \<or> hi \<le> expire_time x" "x \<notin> set us"
    using assms(3) by (simp_all add: settled_def)
  have "expire_time x \<le> ?t \<longleftrightarrow> expire_time x \<le> lo"
    using x(2) assms(1) unfolding clock_within_def by (smt (verit))
  then show ?thesis using assms(2) x(1,3) by (simp add: expire_one_def Let_def remove1_append)
qed

lemma check_expire_from_sweep:
  assumes "clock_within E lo hi" and "executing_tasks s = us @ xs" and "settled lo hi (us @ xs)"
  shows "\<exists>s'. check_expire_from E (length us) s = (Returned, s') \<and>
    executing_tasks s' = us @ sweep (\<lambda>i. expire_time i \<le> lo) xs"
  using assms(2,3)
proof (induction "length xs" arbitrary: us xs s rule: less_induct)
  case less
  show ?case
  proof (cases xs)
    case Nil
    then show ?thesis using less.prems(1) by (subst check_expire_from.simps) simp
  next
    case (Cons x ys)
    obtain s1 where s1: "expire_one E (length us) s = (Returned, s1)"
        "executing_tasks s1 = us @ (if expire_time x \<le> lo then [] else [x]) @ ys"
      using expire_one_settled [OF assms(1), of s us x ys] less.prems Cons by blast
    have step: "check_expire_from E (length us) s = check_expire_from E (Suc (length us)) s1"
      using s1(1) less.prems(1) Cons by (subst check_expire_from.simps) simp
    show ?thesis
    proof (cases "expire_time x \<le> lo")
      case False
      have "\<exists>s'. check_expire_from E (length (us @ [x])) s1 = (Returned, s') \<and>
          executing_tasks s' = (us @ [x]) @ sweep (\<lambda>i. expire_time i \<le> lo) ys"
        by (rule less.hyps) (use Cons s1(2) False less.prems(2) in simp_all)
      with False step show ?thesis using Cons by (cases ys) simp_all
    next
      case True
      show ?thesis
      proof (cases ys)
        case Nil
        then show ?thesis
          using step s1(2) True Cons by (subst (asm) (2) check_expire_from.simps) simp
      next
        case (Cons y zs)
        have "\<exists>s'. check_expire_from E (length (us @ [y])) s1 = (Returned, s') \<and>
            executing_tasks s' = (us @ [y]) @ sweep (\<lambda>i. expire_time i \<le> lo) zs"
          by (rule less.hyps)
             (use Cons \<open>xs = x # ys\<close> s1(2) True less.prems(2) in \<open>auto simp: settled_def\<close>)
        with True step show ?thesis using Cons \<open>xs = x # ys\<close> by simp
      qed
    qed
  qed
qed

lemma check_expire_sweep:
  assumes "clock_within E lo hi" and "settled lo hi (executing_tasks s)"
  shows "\<exists>s'. check_expire E s = (Returned, s') \<and>
    executing_tasks s' = sweep (\<lambda>i. expire_time i \<le> lo) (executing_tasks s)"
  using check_expire_from_sweep [OF assms(1), of s "[]" "executing_tasks s"] assms(2)
  by (simp add: check_expire_def)

lemma settled_sweep: "settled lo hi ts \<Longrightarrow> settled lo hi (sweep p ts)"
  using set_sweep [of p ts] by (auto simp: settled_def distinct_sweep list_all_iff)

lemma check_expire_rounds:
  assumes "clock_within E lo hi" and "settled lo hi (executing_tasks s)"
  shows "executing_tasks (((\<lambda>s. snd (check_expire E s)) ^^ n) s) =
    (sweep (\<lambda>i. expire_time i \<le> lo) ^^ n) (executing_tasks s)"
  using assms(2)
proof (induction n arbitrary: s)
  case (Suc n)
  obtain s1 where s1: "check_expire E s = (Returned, s1)"
      "executing_tasks s1 = sweep (\<lambda>i. expire_time i \<le> lo) (executing_tasks s)"
    using check_expire_sweep [OF assms(1) Suc.prems] by blast
  have "settled lo hi (executing_tasks s1)" using settled_sweep [OF Suc.prems] s1(2) by simp
  from Suc.IH [OF this] s1 show ?case by (simp add: funpow_Suc_right del: funpow.simps(2))
qed simp

section \<open>Answered heartbeats\<close>

text \<open>The SSH library raises nothing but its own exceptions.\<close>

definition ssh_contained :: "hb_env \<Rightarrow> bool" where
  "ssh_contained E \<longleftrightarrow> (\<forall>t ip u p c. ssh_exec E t ip u p c \<noteq> Other_exception)"

lemma updated_task_contained:
  assumes "ssh_contained E" and "k < length (executing_tasks s)"
  shows "\<exists>s' t tok. updated_task E k s = (Returned, s') \<and> t \<in> range (now E) \<and>
    executing_tasks s' = (executing_tasks s)[k := (executing_tasks s ! k)\<lparr>heartbeat_check := False,
      expire_time := t + seconds 15, execute_cmd := str ''touch /tmp/'' @ tok @ reset_command\<rparr>]"
  using assms by (auto simp: updated_task_def execute_command_def ssh_contained_def set_task_def Let_def)

definition renewed :: "int \<Rightarrow> task \<Rightarrow> bool" where
  "renewed hi i \<longleftrightarrow> \<not> heartbeat_check i \<and> hi \<le> expire_time i"

definition answered :: "int \<Rightarrow> task \<Rightarrow> bool" where
  "answered hi i \<longleftrightarrow> heartbeat_check i \<or> hi \<le> expire_time i"

lemma expire_one_answered:
  assumes "ssh_contained E" and "clock_within E lo hi" and "hi \<le> lo + seconds 15"
    and "k < length (executing_tasks s)" and "answered hi (executing_tasks s ! k)"
  shows "\<exists>s' i. expire_one E k s = (Returned, s') \<and> executing_tasks s' = (executing_tasks s)[k := i] \<and>
    renewed hi i \<and> ip_address i = ip_address (executing_tasks s ! k)"
proof (cases "heartbeat_check (executing_tasks s ! k)")
  case True
  obtain s1 t tok where u: "updated_task E k s = (Returned, s1)" "t \<in> range (now E)"
      "executing_tasks s1 = (executing_tasks s)[k := (executing_tasks s ! k)\<lparr>heartbeat_check := False,
        expire_time := t + seconds 15, execute_cmd := str ''touch /tmp/'' @ tok @ reset_command\<rparr>]"
    using updated_task_contained [OF assms(1,4)] by blast
  have t: "lo \<le> t" "now E (hb_calls s1) < hi" using u(2) assms(2) by (auto simp: clock_within_def)
  then show ?thesis
    using True u(1,3) assms(3,4)
    by (intro exI [of _ "hb_add (Now (now E (hb_calls s1))) s1"] exI [of _ "executing_tasks s1 ! k"])
       (simp add: expire_one_def Let_def renewed_def)
next
  case False
  have t: "now E (hb_calls s) < hi" using assms(2) by (simp add: clock_within_def)
  with False assms(5) show ?thesis
    by (intro exI [of _ "hb_add (Now (now E (hb_calls s))) s"] exI [of _ "executing_tasks s ! k"])
       (simp add: expire_one_def Let_def renewed_def answered_def)
qed

lemma check_expire_from_answered:
  assumes "ssh_contained E" and "clock_within E lo hi" and "hi \<le> lo + seconds 15"
    and "executing_tasks s = us @ xs" and "list_all (renewed hi) us" and "list_all (answered hi) xs"
  shows "\<exists>s' ts. check_expire_from E (length us) s = (Returned, s') \<and> executing_tasks s' = us @ ts \<and>
    list_all (renewed hi) ts \<and> map ip_address ts = map ip_address xs"
  using assms(4-6)
proof (induction xs arbitrary: us s)
  case Nil
  then show ?case by (subst check_expire_from.simps) simp
next
  case (Cons x xs)
  obtain s1 i where s1: "expire_one E (length us) s = (Returned, s1)"
      "executing_tasks s1 = (executing_tasks s)[length us := i]" "renewed hi i" "ip_address i = ip_address x"
    using expire_one_answered [OF assms(1-3), of "length us" s] Cons.prems by auto
  have "\<exists>s' ts. check_expire_from E (length (us @ [i])) s1 = (Returned, s') \<and>
      executing_tasks s' = (us @ [i]) @ ts \<and> list_all (renewed hi) ts \<and> map ip_address ts = map ip_address xs"
    by (rule Cons.IH) (use Cons.prems s1 in simp_all)
  then obtain s' ts where "check_expire_from E (Suc (length us)) s1 = (Returned, s')"
      "executing_tasks s' = us @ i # ts" "list_all (renewed hi) ts" "map ip_address ts = map ip_address xs"
    by auto
  then show ?case
    using s1 Cons.prems(1)
    by (intro exI [of _ s'] exI [of _ "i # ts"]) (simp add: check_expire_from.simps [of E "length us" s])
qed

lemma expired_leave:
  assumes "clock_within E lo hi" and "settled lo hi (executing_tasks s)"
    and "length (filter (\<lambda>i. expire_time i \<le> lo) (executing_tasks s)) \<le> n"
  shows "executing_tasks (((\<lambda>s. snd (check_expire E s)) ^^ n) s) = filter (\<lambda>i. hi \<le> expire_time i) (executing_tasks s)"
proof -
  have "lo < hi" using assms(1) by (auto simp: clock_within_def intro: le_less_trans)
  then have "filter (\<lambda>i. \<not> expire_time i \<le> lo) (executing_tasks s) = filter (\<lambda>i. hi \<le> expire_time i) (executing_tasks s)"
    using assms(2) by (intro filter_cong) (auto simp: settled_def list_all_iff)
  then show ?thesis by (simp only: check_expire_rounds [OF assms(1,2)] sweeps_remove_all [OF assms(3)])
qed

lemma answered_survive:
  assumes "ssh_contained E" and "clock_within E lo hi" and "hi \<le> lo + seconds 15"
    and "list_all (\<lambda>i. heartbeat_check i \<or> hi \<le> expire_time i) (executing_tasks s)"
  shows "\<exists>s'. check_expire E s = (Returned, s') \<and>
    map ip_address (executing_tasks s') = map ip_address (executing_tasks s) \<and>
    list_all (\<lambda>i. \<not> heartbeat_check i \<and> hi \<le> expire_time i) (executing_tasks s')"
  using check_expire_from_answered [OF assms(1-3), of s "[]" "executing_tasks s"] assms(4)
  by (auto simp: check_expire_def renewed_def answered_def list_all_iff)

section \<open>Properties\<close>

text \<open>
  C26: an unanswered task is dropped in the end. While the clock stays in an interval in
  which no task expires, as many passes of \<^verbatim>\<open>check_expire\<close> as there are expired tasks leave
  exactly the tasks that have not expired, in their order.
\<close>

theorem expired_tasks_leave:
  assumes "clock_within E lo hi" and "settled lo hi (executing_tasks s)"
    and "length (filter (\<lambda>i. expire_time i \<le> lo) (executing_tasks s)) \<le> n"
  shows "executing_tasks (((\<lambda>s. snd (check_expire E s)) ^^ n) s) = filter (\<lambda>i. hi \<le> expire_time i) (executing_tasks s)"
  by (rule expired_leave [OF assms])

definition still_env :: "int \<Rightarrow> hb_env" where
  "still_env t = \<lparr>token_hex = (\<lambda>_. str ''0123''), now = (\<lambda>_. t), ssh_exec = (\<lambda>_ _ _ _ _. Ssh_done)\<rparr>"

definition task_until :: "string \<Rightarrow> int \<Rightarrow> bool \<Rightarrow> task" where
  "task_until ip t flag = \<lparr>create_time = 0, expire_time = t, ip_address = str ip, execute_cmd = str ''ps 0123'', heartbeat_check = flag\<rparr>"

definition three_tasks :: receiver where
  "three_tasks = receiver_init\<lparr>executing_tasks :=
     [task_until ''10.0.0.1'' 5 False, task_until ''10.0.0.2'' 6 False, task_until ''10.0.0.3'' 90 False]\<rparr>"

lemma three_tasks_settled: "clock_within (still_env 9) 9 10" "settled 9 10 (executing_tasks three_tasks)"
  by (simp_all add: clock_within_def still_env_def settled_def three_tasks_def task_until_def)

theorem expired_tasks_leave_witness:
  "executing_tasks (((\<lambda>s. snd (check_expire (still_env 9) s)) ^^ 2) three_tasks) = [task_until ''10.0.0.3'' 90 False]"
  using expired_tasks_leave [OF three_tasks_settled, of 2] by (simp add: three_tasks_def task_until_def)

text \<open>
  One pass is not enough. The task behind an expired one is skipped, because the list
  is shortened while it is iterated: of two adjacent expired tasks the second one stays.
\<close>

theorem check_expire_skips_next:
  assumes "clock_within E lo hi" and "settled lo hi (executing_tasks s)"
    and "executing_tasks s = us @ x # y # ys" and "list_all (\<lambda>i. lo < expire_time i) us"
    and "expire_time x \<le> lo" and "expire_time y \<le> lo"
  shows "\<exists>s'. check_expire E s = (Returned, s') \<and>
    executing_tasks s' = us @ y # sweep (\<lambda>i. expire_time i \<le> lo) ys"
proof -
  have "sweep p (us @ x # y # ys) = us @ y # sweep p ys" if "p x" "list_all (\<lambda>i. \<not> p i) us" for p :: "task \<Rightarrow> bool"
    using that
  proof (induction us)
    case (Cons u us)
    then show ?case by (cases us) simp_all
  qed simp
  from this [of "\<lambda>i. expire_time i \<le> lo"] check_expire_sweep [OF assms(1,2)] assms(3-5)
  show ?thesis by (auto simp: not_le)
qed

theorem check_expire_skips_next_witness:
  "\<exists>s'. check_expire (still_env 9) three_tasks = (Returned, s') \<and>
     executing_tasks s' = [task_until ''10.0.0.2'' 6 False, task_until ''10.0.0.3'' 90 False]"
  using check_expire_skips_next [OF three_tasks_settled, of "[]" "task_until ''10.0.0.1'' 5 False"
      "task_until ''10.0.0.2'' 6 False" "[task_until ''10.0.0.3'' 90 False]"]
  by (simp add: three_tasks_def task_until_def)

text \<open>
  An answered task is renewed. When every task is marked as answered or has not expired,
  and the SSH library raises nothing but its own exceptions, a pass of \<^verbatim>\<open>check_expire\<close> that takes
  less than 15 seconds returns with the same devices in the same order, none of them marked
  and none of them expired.
\<close>

theorem answered_tasks_survive:
  assumes "ssh_contained E" and "clock_within E lo hi" and "hi \<le> lo + seconds 15"
    and "list_all (\<lambda>i. heartbeat_check i \<or> hi \<le> expire_time i) (executing_tasks s)"
  shows "\<exists>s'. check_expire E s = (Returned, s') \<and>
    map ip_address (executing_tasks s') = map ip_address (executing_tasks s) \<and>
    list_all (\<lambda>i. \<not> heartbeat_check i \<and> hi \<le> expire_time i) (executing_tasks s')"
  by (rule answered_survive [OF assms])

definition answered_receiver :: receiver where
  "answered_receiver = receiver_init\<lparr>executing_tasks := [task_until ''10.0.0.1'' 5 True, task_until ''10.0.0.3'' 90 False]\<rparr>"

theorem answered_tasks_survive_witness:
  "\<exists>s'. check_expire (still_env 9) answered_receiver = (Returned, s') \<and>
    map ip_address (executing_tasks s') = [str ''10.0.0.1'', str ''10.0.0.3''] \<and>
    list_all (\<lambda>i. \<not> heartbeat_check i \<and> 10 \<le> expire_time i) (executing_tasks s')"
proof -
  have "ssh_contained (still_env 9)" "(10 :: int) \<le> 9 + seconds 15"
    "list_all (\<lambda>i. heartbeat_check i \<or> 10 \<le> expire_time i) (executing_tasks answered_receiver)"
    by (simp_all add: ssh_contained_def still_env_def answered_receiver_def task_until_def)
  from answered_tasks_survive [OF this(1) three_tasks_settled(1) this(2,3)] show ?thesis
    by (simp add: answered_receiver_def task_until_def)
qed

text \<open>
  An unreachable device ends the heartbeat of all devices. When the SSH connection to the
  device that is taken first raises an exception that is not the library's own, the round
  raises it too: that device has got its task, the others still wait, no task is checked for
  expiry.
\<close>

theorem unreachable_device_ends_round:
  assumes "iot_device s = ds @ [ip]"
    and "\<forall>t u p c. ssh_exec E t ip u p c = Other_exception"
  shows "\<exists>s' i. heartbeat_round E s = (Raised, s') \<and> iot_device s' = ds \<and>
    executing_tasks s' = executing_tasks s @ [i] \<and> ip_address i = ip"
  using assms
  by (simp add: heartbeat_round_def register_devices.simps [of E _ "hb_add _ _"] register_one_def execute_command_def Let_def)

definition refusing_env :: hb_env where
  "refusing_env = (still_env 9)\<lparr>ssh_exec := (\<lambda>_ ip _ _ _. if ip = str ''10.0.0.9'' then Other_exception else Ssh_done)\<rparr>"

definition two_waiting :: receiver where
  "two_waiting = receiver_init\<lparr>iot_device := [str ''10.0.0.1'', str ''10.0.0.9'']\<rparr>"

theorem unreachable_device_ends_round_witness:
  "\<exists>s' i. heartbeat_round refusing_env two_waiting = (Raised, s') \<and> iot_device s' = [str ''10.0.0.1''] \<and>
    executing_tasks s' = executing_tasks two_waiting @ [i] \<and> ip_address i = str ''10.0.0.9''"
  by (rule unreachable_device_ends_round) (simp_all add: two_waiting_def refusing_env_def receiver_init_def)

end
