(* ===== verification/Window_Buffer.thy ===== *)
theory Window_Buffer
  imports Py_Text
begin

text \<open>
  The contract of a buffer that keeps the newest elements: a step takes some elements from the
  left end and appends others on the right, and what exceeds the capacity is lost on the left.
  The locale \<^verbatim>\<open>window_buffer\<close> states it for a system with several such buffers, of which the
  contract looks at one; what a whole run takes out is proved once inside it.
\<close>

text \<open>A run of the system, with the elements its steps took from the buffer; None is a step that does not end.\<close>

fun window_run :: "('e \<Rightarrow> 's \<Rightarrow> 's option) \<Rightarrow> ('e \<Rightarrow> 's \<Rightarrow> 'a list) \<Rightarrow> 'e list \<Rightarrow> 's \<Rightarrow> ('a list \<times> 's) option" where
  "window_run step taken [] s = Some ([], s)"
| "window_run step taken (e # es) s =
     (case step e s of
        None \<Rightarrow> None
      | Some s' \<Rightarrow> (case window_run step taken es s' of None \<Rightarrow> None | Some (xs, s'') \<Rightarrow> Some (taken e s @ xs, s'')))"

locale window_buffer =
  fixes invar :: "'s \<Rightarrow> bool"
    and view :: "'s \<Rightarrow> 'a list"
    and cap :: nat
    and step :: "'e \<Rightarrow> 's \<Rightarrow> 's option"
    and fed :: "'e \<Rightarrow> 'a list"
    and taken :: "'e \<Rightarrow> 's \<Rightarrow> 'a list"
  assumes step_window: "invar s \<Longrightarrow> \<exists>s' rest. step e s = Some s' \<and> invar s' \<and>
      view s = taken e s @ rest \<and> view s' = last_n cap (rest @ fed e)"
    and invar_bound: "invar s \<Longrightarrow> length (view s) \<le> cap"
begin

lemma run_conserves:
  assumes "invar s"
  shows "\<exists>out s'. window_run step taken es s = Some (out, s') \<and> invar s' \<and>
    subseq (out @ view s') (view s @ concat (map fed es)) \<and>
    (length (view s @ concat (map fed es)) \<le> cap \<longrightarrow> out @ view s' = view s @ concat (map fed es))"
  using assms
proof (induction es arbitrary: s)
  case (Cons e es)
  obtain s1 rest where s1: "step e s = Some s1" "invar s1" "view s = taken e s @ rest"
      "view s1 = last_n cap (rest @ fed e)"
    using step_window [OF Cons.prems] by blast
  obtain out s' where run: "window_run step taken es s1 = Some (out, s')" "invar s'"
      "subseq (out @ view s') (view s1 @ concat (map fed es))"
      "length (view s1 @ concat (map fed es)) \<le> cap \<longrightarrow> out @ view s' = view s1 @ concat (map fed es)"
    using Cons.IH [OF s1(2)] by blast
  have "subseq (view s1 @ concat (map fed es)) ((rest @ fed e) @ concat (map fed es))"
    unfolding s1(4) by (intro list_emb_append_mono subseq_last_n) simp
  with run(3) have "subseq (out @ view s') (rest @ fed e @ concat (map fed es))"
    using subseq_order.order_trans by fastforce
  then have "subseq ((taken e s @ out) @ view s') (view s @ concat (map fed (e # es)))"
    by (simp add: s1(3) subseq_append_le_same_iff list_emb_append_mono)
  moreover have "(taken e s @ out) @ view s' = view s @ concat (map fed (e # es))"
    if "length (view s @ concat (map fed (e # es))) \<le> cap"
    using that run(4) s1(3,4) by (simp add: last_n_all)
  ultimately show ?case using s1(1) run(1,2) by auto
qed simp

lemma run_bounded: "invar s \<Longrightarrow> window_run step taken es s = Some (out, s') \<Longrightarrow> length (view s') \<le> cap"
  using run_conserves [of s es] invar_bound [of s'] by auto

end

end
