(* ===== verification/Receiver_System.thy ===== *)
theory Receiver_System
  imports Heartbeat Window_Buffer
begin

text \<open>
  The log receiver as a whole: the operations of its threads as the steps of one system, its
  well-formedness, and the three deques as instances of the buffer contract.
\<close>

section \<open>The whole receiver\<close>

text \<open>
  What can happen, one operation of a thread at a time: a device connects, data arrives on a
  connection, a timer saves or searches the records, a round of a SPADE connection, a round
  of the heartbeat. An exception that is not caught ends the heartbeat thread. None is an
  operation that does not end.
\<close>

datatype revent =
    Accept py_str
  | Receive bytes
  | Save py_str bool
  | Match
  | Forward nat send_result
  | Beat

fun receiver_step :: "hb_env \<Rightarrow> revent \<Rightarrow> receiver \<Rightarrow> receiver option" where
  "receiver_step E (Accept address) s = Some (accept_client address s)"
| "receiver_step E (Receive bs) s = Some (snd (listenToClient [Data bs] s))"
| "receiver_step E (Save name open_ok) s = map_option snd (save_audit_log name open_ok s)"
| "receiver_step E Match s = logmatch s"
| "receiver_step E (Forward c r) s = Some (snd (listen_client c (\<lambda>_. r) s))"
| "receiver_step E Beat s =
     Some (if hb_alive s then
             case heartbeat_round E s of (out, s') \<Rightarrow> if out = Raised then s'\<lparr>hb_alive := False\<rparr> else s'
           else s)"

text \<open>
  The records an event brings, and the records it takes from each of the deques.
\<close>

fun received :: "revent \<Rightarrow> py_str list" where
  "received (Receive bs) = (case utf8_decode bs of None \<Rightarrow> [] | Some data \<Rightarrow> records_of data)"
| "received e = []"

fun forwarded :: "revent \<Rightarrow> receiver \<Rightarrow> py_str list" where
  "forwarded (Forward c r) s = (if 30 < length (audit s) then [hd (audit s)] else [])"
| "forwarded e s = []"

fun written :: "revent \<Rightarrow> receiver \<Rightarrow> py_str list" where
  "written (Save name open_ok) s = (if length (audit_buffer s) \<le> 5 then [] else take (length (audit_buffer s) - 10) (audit_buffer s))"
| "written e s = []"

fun searched :: "revent \<Rightarrow> receiver \<Rightarrow> py_str list" where
  "searched Match s = take (length (audit_buffer_hearbeat s) - 10) (audit_buffer_hearbeat s)"
| "searched e s = []"

section \<open>Well-formed states\<close>

text \<open>
  The deques are within their bounds and hold rewritten records, every task has one of the
  heartbeat's commands, and no address is supervised twice.
\<close>

definition receiver_wf :: "receiver \<Rightarrow> bool" where
  "receiver_wf s \<longleftrightarrow> deques_ok s \<and>
     list_all spade_line (audit_buffer s) \<and> list_all spade_line (audit_buffer_hearbeat s) \<and> list_all spade_line (audit s) \<and>
     list_all task_ok (executing_tasks s) \<and> distinct (supervised s)"

lemma distinct_submset: "mset xs \<subseteq># mset ys \<Longrightarrow> distinct ys \<Longrightarrow> distinct xs"
  by (metis count_mset_gt_0 distinct_count_atmost_1 gr_zeroI le_antisym le_zero_eq less_one linorder_not_less
      mset_subset_eq_count not_in_iff set_mset_mset)

lemma list_all_sublists:
  "list_all p xs \<Longrightarrow> list_all p (take n xs)" "list_all p xs \<Longrightarrow> list_all p (drop n xs)"
  "list_all p xs \<Longrightarrow> list_all p (last_n n xs)" "list_all p xs \<Longrightarrow> list_all p (tl xs)"
  by (auto simp: list_all_iff last_n_def tl_def dest: in_set_takeD in_set_dropD split: list.splits)

lemma accept_client_wf: "receiver_wf s \<Longrightarrow> receiver_wf (accept_client address s)"
  by (auto simp: receiver_wf_def accept_client_def deques_ok_def supervised_def find_None_iff)

lemma parse_wf: "receiver_wf s \<Longrightarrow> list_all scalar data \<Longrightarrow> receiver_wf (parseEventLog data s)"
  using records_of_lines [of data]
  by (auto simp: receiver_wf_def parseEventLog_eq deques_ok_def supervised_def intro: list_all_sublists)

lemma receive_wf: "receiver_wf s \<Longrightarrow> receiver_wf (snd (listenToClient rs s))"
  by (induction rs s rule: listenToClient.induct) (auto simp: parse_wf utf8_decode_scalar split: option.splits)

lemma save_wf: "receiver_wf s \<Longrightarrow> save_audit_log name ok s = Some (b, s') \<Longrightarrow> receiver_wf s'"
  by (auto simp: receiver_wf_def save_audit_log_eq deques_ok_def supervised_def Let_def split: if_splits
      intro: list_all_sublists)

lemma marking_keeps:
  "map ip_address (fold mark_tasks cs ts) = map ip_address ts"
  "list_all task_ok (fold mark_tasks cs ts) = list_all task_ok ts"
proof -
  have "task_ok (i\<lparr>heartbeat_check := True\<rparr>) = task_ok i" for i by (simp add: task_ok_def)
  then show "list_all task_ok (fold mark_tasks cs ts) = list_all task_ok ts"
    unfolding fold_mark_tasks by (induction ts) auto
qed (simp add: fold_mark_tasks)

lemma logmatch_wf: "receiver_wf s \<Longrightarrow> logmatch s = Some s' \<Longrightarrow> receiver_wf s'"
  by (auto simp: receiver_wf_def logmatch_eq deques_ok_def supervised_def marking_keeps list_all_sublists
      simp del: map_map set_map)

lemma listen_client_wf: "receiver_wf s \<Longrightarrow> receiver_wf (snd (listen_client c f s))"
  by (auto simp: receiver_wf_def listen_client_def deques_ok_def supervised_def Let_def list_all_sublists
      split: send_result.splits)

lemma heartbeat_round_wf:
  assumes "receiver_wf s" and "heartbeat_round E s = (out, s')"
  shows "receiver_wf s'"
  using heartbeat_round_frame [OF assms(2)] heartbeat_round_supervised [OF assms(2)] assms(1) distinct_submset
  by (auto simp: receiver_wf_def hb_frame_def deques_ok_def)

lemma receiver_step_total:
  assumes "receiver_wf s"
  obtains s' where "receiver_step E e s = Some s'" and "receiver_wf s'"
proof (cases e)
  case (Save name ok)
  obtain b s' where "save_audit_log name ok s = Some (b, s')" by (simp add: save_audit_log_eq Let_def) force
  with Save show thesis using that save_wf [OF assms] by auto
next
  case Match
  then show thesis using that logmatch_eq logmatch_wf [OF assms] by fastforce
next
  case Beat
  obtain out s' where r: "heartbeat_round E s = (out, s')" by force
  have "receiver_wf (s'\<lparr>hb_alive := False\<rparr>)" "receiver_wf s'"
    using heartbeat_round_wf [OF assms r] by (simp_all add: receiver_wf_def deques_ok_def supervised_def)
  with r Beat assms show thesis by (cases "hb_alive s"; cases "out = Raised") (auto intro: that)
next
  case (Receive bs)
  then show thesis using that receive_wf [OF assms, of "[Data bs]"] by (simp del: listenToClient.simps)
qed (use that assms accept_client_wf listen_client_wf in auto)

section \<open>The deques as window buffers\<close>

lemma receive_eq:
  assumes "deques_ok s"
  shows "snd (listenToClient [Data bs] s) =
    s\<lparr>audit_buffer := last_n 1000 (audit_buffer s @ received (Receive bs)),
      audit_buffer_hearbeat := last_n 1000 (audit_buffer_hearbeat s @ received (Receive bs)),
      audit := last_n 10000 (audit s @ received (Receive bs))\<rparr>"
  using assms
  by (auto simp: parseEventLog_eq deques_ok_def last_n_all records_of_def List.map_filter_simps split: option.splits)

text \<open>How one step moves each deque.\<close>

lemma receiver_step_views:
  assumes "receiver_wf s" and "receiver_step E e s = Some s'"
  shows "\<exists>rest. audit s = forwarded e s @ rest \<and> audit s' = last_n 10000 (rest @ received e)"
    and "\<exists>rest. audit_buffer s = written e s @ rest \<and> audit_buffer s' = last_n 1000 (rest @ received e)"
    and "\<exists>rest. audit_buffer_hearbeat s = searched e s @ rest \<and> audit_buffer_hearbeat s' = last_n 1000 (rest @ received e)"
proof -
  have ok: "deques_ok s" "length (audit_buffer s) \<le> 1000" "length (audit_buffer_hearbeat s) \<le> 1000" "length (audit s) \<le> 10000"
    using assms(1) by (simp_all add: receiver_wf_def deques_ok_def)
  have "(\<exists>rest. audit s = forwarded e s @ rest \<and> audit s' = last_n 10000 (rest @ received e)) \<and>
      (\<exists>rest. audit_buffer s = written e s @ rest \<and> audit_buffer s' = last_n 1000 (rest @ received e)) \<and>
      (\<exists>rest. audit_buffer_hearbeat s = searched e s @ rest \<and> audit_buffer_hearbeat s' = last_n 1000 (rest @ received e))"
  proof (cases e)
    case (Receive bs)
    then show ?thesis using assms(2) receive_eq [OF ok(1), of bs] by simp
  next
    case (Accept ip)
    then show ?thesis using assms(2) ok by (auto simp: accept_client_def last_n_all split: if_splits)
  next
    case (Save name b)
    then show ?thesis using assms(2) ok
      by (auto simp: save_audit_log_eq Let_def last_n_all split: if_splits
          intro!: exI [of _ "drop (length (audit_buffer s) - 10) (audit_buffer s)"])
  next
    case Match
    then show ?thesis using assms(2) ok
      by (auto simp: logmatch_eq last_n_all
          intro!: exI [of _ "drop (length (audit_buffer_hearbeat s) - 10) (audit_buffer_hearbeat s)"])
  next
    case (Forward c r)
    then show ?thesis using assms(2) ok
      by (cases "audit s") (auto simp: listen_client_def Let_def last_n_all split: if_splits send_result.splits)
  next
    case Beat
    obtain out t where r: "heartbeat_round E s = (out, t)" by force
    then show ?thesis
      using Beat assms(2) ok heartbeat_round_frame [OF r] by (auto simp: hb_frame_def last_n_all split: if_splits)
  qed
  then show "\<exists>rest. audit s = forwarded e s @ rest \<and> audit s' = last_n 10000 (rest @ received e)"
    and "\<exists>rest. audit_buffer s = written e s @ rest \<and> audit_buffer s' = last_n 1000 (rest @ received e)"
    and "\<exists>rest. audit_buffer_hearbeat s = searched e s @ rest \<and> audit_buffer_hearbeat s' = last_n 1000 (rest @ received e)"
    by blast+
qed

interpretation spade_buffer: window_buffer receiver_wf audit 10000 "receiver_step E" received forwarded for E
proof
  fix s e
  assume s: "receiver_wf s"
  obtain s' where s': "receiver_step E e s = Some s'" "receiver_wf s'" by (rule receiver_step_total [OF s])
  from s' receiver_step_views(1) [OF s s'(1)]
  show "\<exists>s' rest. receiver_step E e s = Some s' \<and> receiver_wf s' \<and> audit s = forwarded e s @ rest \<and>
      audit s' = last_n 10000 (rest @ received e)" by blast
qed (simp add: receiver_wf_def deques_ok_def)

interpretation file_buffer: window_buffer receiver_wf audit_buffer 1000 "receiver_step E" received written for E
proof
  fix s e
  assume s: "receiver_wf s"
  obtain s' where s': "receiver_step E e s = Some s'" "receiver_wf s'" by (rule receiver_step_total [OF s])
  from s' receiver_step_views(2) [OF s s'(1)]
  show "\<exists>s' rest. receiver_step E e s = Some s' \<and> receiver_wf s' \<and> audit_buffer s = written e s @ rest \<and>
      audit_buffer s' = last_n 1000 (rest @ received e)" by blast
qed (simp add: receiver_wf_def deques_ok_def)

interpretation heartbeat_buffer: window_buffer receiver_wf audit_buffer_hearbeat 1000 "receiver_step E" received searched for E
proof
  fix s e
  assume s: "receiver_wf s"
  obtain s' where s': "receiver_step E e s = Some s'" "receiver_wf s'" by (rule receiver_step_total [OF s])
  from s' receiver_step_views(3) [OF s s'(1)]
  show "\<exists>s' rest. receiver_step E e s = Some s' \<and> receiver_wf s' \<and> audit_buffer_hearbeat s = searched e s @ rest \<and>
      audit_buffer_hearbeat s' = last_n 1000 (rest @ received e)" by blast
qed (simp add: receiver_wf_def deques_ok_def)

section \<open>What marks a task\<close>

text \<open>Without received data no task is ever marked.\<close>

definition unmarked :: "receiver \<Rightarrow> bool" where
  "unmarked s \<longleftrightarrow> audit_buffer_hearbeat s = [] \<and> list_all (\<lambda>i. \<not> heartbeat_check i) (executing_tasks s)"

lemma heartbeat_round_unmarked:
  assumes "heartbeat_round E s = (out, s')" and "unmarked s"
  shows "unmarked s'"
proof (rule heartbeat_round_keeps [OF assms(1), where start = s and P = unmarked])
  fix t out t' k
  assume "unmarked t" "k < length (executing_tasks t)" "expire_one E k t = (out, t')"
  then show "unmarked t'"
    by (auto simp: expire_one_def unmarked_def list_all_length Let_def split: if_splits)
       (metis in_set_conv_nth notin_set_remove1)
next
  fix t out t'
  assume "unmarked t" "register_one E (str ''ps '' @ token_hex E (hb_calls s)) t = (out, t')"
  then show "unmarked t'"
    by (auto simp: register_one_def unmarked_def Let_def dest!: execute_command_state)
qed (use assms(2) in \<open>auto simp: unmarked_def\<close>)

lemma receiver_step_unmarked:
  assumes "receiver_step E e s = Some s'" and "unmarked s" and "\<And>bs. e \<noteq> Receive bs"
  shows "unmarked s'"
proof (cases e)
  case Beat
  obtain out t where r: "heartbeat_round E s = (out, t)" by force
  from heartbeat_round_unmarked [OF this assms(2)] show ?thesis
    using Beat r assms(1,2) by (auto simp: unmarked_def split: if_splits)
next
  case Match
  then show ?thesis using assms(1,2) by (auto simp: logmatch_eq unmarked_def commands_of_def List.map_filter_simps)
qed (use assms in \<open>auto simp: unmarked_def accept_client_def save_audit_log_eq listen_client_def Let_def
       split: if_splits send_result.splits\<close>)

lemma receiver_run_unmarked:
  assumes "window_run (receiver_step E) forwarded es s = Some (out, s')" and "unmarked s" and "\<And>bs. Receive bs \<notin> set es"
  shows "unmarked s'"
  using assms
proof (induction es arbitrary: s out)
  case (Cons e es)
  then obtain s1 out1 where s1: "receiver_step E e s = Some s1" "window_run (receiver_step E) forwarded es s1 = Some (out1, s')"
    by (auto split: option.splits)
  have "unmarked s1" by (rule receiver_step_unmarked [OF s1(1)]) (use Cons.prems in auto)
  with Cons.IH [OF s1(2)] Cons.prems(3) show ?case by simp
qed simp

text \<open>A received record that ten others follow is searched by the next \<^verbatim>\<open>logmatch\<close>.\<close>

lemma receive_then_match:
  assumes "receiver_wf s" and "received (Receive bs) = xs @ l # ys" and "record_command l = Some c"
    and "10 \<le> length ys" and "length ys < 1000"
  shows "\<exists>s1 s2. receiver_step E (Receive bs) s = Some s1 \<and> receiver_step E Match s1 = Some s2 \<and>
    executing_tasks s1 = executing_tasks s \<and>
    (\<exists>p. executing_tasks s2 = map (\<lambda>i. if p i then i\<lparr>heartbeat_check := True\<rparr> else i) (executing_tasks s) \<and>
       (\<forall>i. py_in c (execute_cmd i) \<longrightarrow> p i))"
proof -
  obtain s1 where st: "receiver_step E (Receive bs) s = Some s1"
      "audit_buffer_hearbeat s1 = last_n 1000 (audit_buffer_hearbeat s @ xs @ l # ys)" "executing_tasks s1 = executing_tasks s"
    using receive_eq [of s bs] assms(1,2) by (simp add: receiver_wf_def)
  have "length ys \<le> 999" using assms(5) by simp
  then have "\<exists>as. last_n 1000 (audit_buffer_hearbeat s @ xs @ l # ys) = as @ l # ys"
    by (simp add: last_n_def)
  then obtain as where as: "audit_buffer_hearbeat s1 = as @ l # ys" unfolding st(2) by blast
  let ?cs = "commands_of (as @ l # take (length ys - 10) ys)"
  have "length ys - 9 = Suc (length ys - 10)" using assms(4) by simp
  then have searched: "take (length (audit_buffer_hearbeat s1) - 10) (audit_buffer_hearbeat s1) = as @ l # take (length ys - 10) ys"
    by (simp add: as)
  obtain s2 where s2: "logmatch s1 = Some s2" "executing_tasks s2 = fold mark_tasks ?cs (executing_tasks s1)"
    unfolding logmatch_eq searched by simp
  have "c \<in> set ?cs" using assms(3) by (simp add: commands_of_def List.map_filter_def)
  then have "\<forall>i. py_in c (execute_cmd i) \<longrightarrow> list_ex (\<lambda>c. py_in c (execute_cmd i)) ?cs" by (auto simp: list_ex_iff)
  with st(1,3) s2 show ?thesis unfolding fold_mark_tasks by auto
qed

section \<open>Properties\<close>

lemma receiver_init_wf: "receiver_wf receiver_init"
  by (simp add: receiver_wf_def receiver_init_def deques_ok_def supervised_def)


text \<open>What has been sent to SPADE, when every send took all its bytes.\<close>

definition whole_send :: "revent \<Rightarrow> bool" where
  "whole_send e \<longleftrightarrow> (case e of Forward c r \<Rightarrow> r = Sent_all | _ \<Rightarrow> True)"

lemma receiver_step_sent:
  assumes "receiver_step E e s = Some s'" and "whole_send e"
  shows "map snd (sent s') = map snd (sent s) @ map utf8_encode (forwarded e s)"
proof (cases e)
  case Beat
  obtain out t where r: "heartbeat_round E s = (out, t)" by force
  with Beat assms show ?thesis using heartbeat_round_frame [OF r] by (auto simp: hb_frame_def split: if_splits)
next
  case (Receive bs)
  have "sent (foldl (\<lambda>s d. case translate_audit_log d of None \<Rightarrow> s | Some l \<Rightarrow> store_record l s) s ds) = sent s" for s ds
    by (induction ds arbitrary: s) (simp_all add: store_record_def split: option.splits)
  then show ?thesis using Receive assms by (auto simp: parseEventLog_def split: option.splits)
qed (use assms in \<open>auto simp: accept_client_def save_audit_log_eq logmatch_eq listen_client_def whole_send_def Let_def
       split: if_splits\<close>)

lemma receiver_run_sent:
  assumes "window_run (receiver_step E) forwarded es s = Some (out, s')" and "list_all whole_send es"
  shows "map snd (sent s') = map snd (sent s) @ map utf8_encode out"
  using assms
proof (induction es arbitrary: s out)
  case (Cons e es)
  then obtain s1 out1 where s1: "receiver_step E e s = Some s1"
      "window_run (receiver_step E) forwarded es s1 = Some (out1, s')" "out = forwarded e s @ out1"
    by (auto split: option.splits)
  from Cons.IH [OF s1(2)] Cons.prems(2) receiver_step_sent [OF s1(1)] s1(3) show ?case by simp
qed simp

lemma subseq_list_all: "subseq xs ys \<Longrightarrow> list_all p ys \<Longrightarrow> list_all p xs"
  using list_emb_set [of "(=)" xs ys] by (fastforce simp: list_all_iff)

lemma received_lines: "list_all spade_line (received e)"
  by (cases e) (auto split: option.splits dest: utf8_decode_scalar records_of_lines)

lemma receiver_to_spade:
  assumes "list_all whole_send es"
  shows "\<exists>out s. window_run (receiver_step E) forwarded es receiver_init = Some (out, s) \<and>
    map (\<lambda>(c, bs). utf8_decode bs) (sent s) = map Some out \<and> subseq (out @ audit s) (concat (map received es)) \<and>
    (length (concat (map received es)) \<le> 10000 \<longrightarrow> out @ audit s = concat (map received es))"
proof -
  obtain out s where run: "window_run (receiver_step E) forwarded es receiver_init = Some (out, s)"
      "subseq (out @ audit s) (concat (map received es))"
      "length (concat (map received es)) \<le> 10000 \<longrightarrow> out @ audit s = concat (map received es)"
    using spade_buffer.run_conserves [OF receiver_init_wf, of E es] by (auto simp: receiver_init_def)
  have "list_all spade_line (concat (map received es))"
    using received_lines by (auto simp: list_all_iff)
  then have "list_all spade_line out" using subseq_list_all [OF run(2)] by auto
  then have "map utf8_decode (map utf8_encode out) = map Some out"
    by (auto simp: list_all_iff intro: utf8_roundtrip [OF spade_line_scalar])
  moreover have "map snd (sent s) = map utf8_encode out"
    using receiver_run_sent [OF run(1) assms] by (simp add: receiver_init_def)
  ultimately have "map (\<lambda>(c, bs). utf8_decode bs) (sent s) = map Some out"
    by (metis (no_types, lifting) case_prod_beta' list.map_comp map_eq_conv o_apply)
  with run show ?thesis by blast
qed


definition iot_line :: bytes where
  "iot_line = str ''audit(1.0:7): cwd=a,node=iot'' @ [10]"

lemma iot_line_received: "received (Receive iot_line) = [str ''node=iot type=CWD audit(1.0:7): cwd=a'' @ [10]]"
proof -
  have "utf8_decode iot_line = Some iot_line" by (rule utf8_decode_ascii) (simp add: iot_line_def)
  moreover have "splitlines iot_line = [str ''audit(1.0:7): cwd=a,node=iot'']"
    by (simp add: iot_line_def splitlines_def line_break_def)
  ultimately show ?thesis
    by (simp add: records_of_def List.map_filter_simps translate_audit_log_def format_audit_msg_def)
qed

definition iot_events :: "revent list" where
  "iot_events = [Accept (str ''10.0.0.1''), Receive iot_line, Match, Forward 0 Sent_all]"


text \<open>
  The log file and the heartbeat search see the records in order too. Over any sequence
  of events, the records that the saving timer took from its deque, followed by the ones
  still in it, are a subsequence of the received records, and so are those that the search
  for heartbeats took.
\<close>

theorem timers_take_received_records:
  "\<exists>saves s searches s'.
    window_run (receiver_step E) written es receiver_init = Some (saves, s) \<and>
    subseq (saves @ audit_buffer s) (concat (map received es)) \<and>
    window_run (receiver_step E) searched es receiver_init = Some (searches, s') \<and>
    subseq (searches @ audit_buffer_hearbeat s') (concat (map received es))"
  using file_buffer.run_conserves [OF receiver_init_wf, of E es] heartbeat_buffer.run_conserves [OF receiver_init_wf, of E es]
  by (auto simp: receiver_init_def)

text \<open>
  The forwarding stops thirty records early. Rounds of a SPADE connection that take all
  their bytes forward the waiting records in order, one per round, until thirty are left;
  those stay until newer records arrive.
\<close>

theorem spade_backlog:
  assumes "receiver_wf s"
  shows "\<exists>s'. window_run (receiver_step E) forwarded (replicate n (Forward c Sent_all)) s =
      Some (take (min n (length (audit s) - 30)) (audit s), s') \<and>
    audit s' = drop (min n (length (audit s) - 30)) (audit s)"
  using assms
proof (induction n arbitrary: s)
  case (Suc n)
  let ?s = "snd (listen_client c (\<lambda>_. Sent_all) s)"
  have wf: "receiver_wf ?s" by (rule listen_client_wf [OF Suc.prems])
  show ?case
  proof (cases "30 < length (audit s)")
    case True
    then obtain x xs where a: "audit s = x # xs" by (cases "audit s") auto
    have "audit ?s = xs" using True a by (simp add: listen_client_def Let_def)
    moreover have "length (x # xs) - 30 = Suc (length xs - 30)" using True a by simp
    ultimately show ?thesis using Suc.IH [OF wf] True a by (auto simp: min_def)
  next
    case False
    then have "?s = s" by (simp add: listen_client_def)
    with False Suc.IH [OF wf] show ?thesis by auto
  qed
qed simp

definition loaded_receiver :: receiver where
  "loaded_receiver = receiver_init\<lparr>audit := replicate 32 (str ''node=iot type=CWD audit: cwd=a'' @ [10])\<rparr>"

theorem spade_backlog_witness:
  "\<exists>s'. window_run (receiver_step (still_env 9)) forwarded (replicate 5 (Forward 0 Sent_all)) loaded_receiver =
      Some (replicate 2 (str ''node=iot type=CWD audit: cwd=a'' @ [10]), s') \<and>
    audit s' = replicate 30 (str ''node=iot type=CWD audit: cwd=a'' @ [10])"
proof -
  have "spade_line (str ''node=iot'' @ str '' type='' @ str ''CWD'' @ str '' '' @ str ''audit: cwd=a'' @ [10])"
    unfolding spade_line_def
    by (intro exI [of _ "str ''node=iot''"] exI [of _ "''CWD''"] exI [of _ "str ''audit: cwd=a''"])
       (simp add: line_break_def scalar_def)
  then have "receiver_wf loaded_receiver"
    by (simp add: receiver_wf_def loaded_receiver_def receiver_init_def deques_ok_def supervised_def list_all_iff)
  from spade_backlog [OF this, of "still_env 9" 5 0] show ?thesis
    by (simp add: loaded_receiver_def del: str_simps replicate.simps window_run.simps)
qed

end
