(* ===== verification/Guarded_Pop.thy ===== *)
theory Guarded_Pop
  imports Main
begin

text \<open>
  Threads that test the length of a shared queue and then take from it in a later step,
  without a lock: the contract of such a group of threads, and how many of them the test
  protects from finding the queue empty.
\<close>

section \<open>Counting threads\<close>

definition count_if :: "('t \<Rightarrow> bool) \<Rightarrow> 't list \<Rightarrow> nat" where
  "count_if p ts = length (filter p ts)"

lemma count_if_simps [simp]:
  "count_if p [] = 0" "count_if p (t # ts) = (if p t then 1 else 0) + count_if p ts"
  "count_if p (ts @ us) = count_if p ts + count_if p us"
  by (simp_all add: count_if_def)

lemma count_if_update:
  "i < length ts \<Longrightarrow> count_if p (ts[i := t]) + (if p (ts ! i) then 1 else 0) = count_if p ts + (if p t then 1 else 0)"
proof (induction ts arbitrary: i)
  case (Cons u ts)
  then show ?case by (cases i) auto
qed simp

lemma count_if_pos: "i < length ts \<Longrightarrow> p (ts ! i) \<Longrightarrow> 0 < count_if p ts"
proof -
  assume "i < length ts" and "p (ts ! i)"
  then have "ts ! i \<in> set (filter p ts)" by simp
  then show ?thesis unfolding count_if_def by (rule length_pos_if_in_set)
qed

lemma count_if_mono: "(\<And>t. p t \<Longrightarrow> q t) \<Longrightarrow> count_if p ts \<le> count_if q ts"
  by (induction ts) auto

section \<open>The contract\<close>

text \<open>
  \<^verbatim>\<open>tstep\<close> is one step of a thread on the shared state. The threads of the group are those of
  \<^verbatim>\<open>member\<close>; a thread for which \<^verbatim>\<open>popping\<close> holds takes one element in its next step, and gets
  there only from a test that found more than \<^verbatim>\<open>limit\<close> elements. No other step shortens the
  queue.
\<close>

locale guarded_pop =
  fixes ok :: "'s \<Rightarrow> bool"
    and buf :: "'s \<Rightarrow> 'x list"
    and limit :: nat
    and member :: "'t \<Rightarrow> bool"
    and popping :: "'t \<Rightarrow> bool"
    and tstep :: "'a \<Rightarrow> 't \<Rightarrow> 's \<Rightarrow> 't \<times> 's"
  assumes popping_member: "popping t \<Longrightarrow> member t"
    and step_ok: "ok s \<Longrightarrow> tstep a t s = (t', s') \<Longrightarrow> ok s'"
    and step_member: "ok s \<Longrightarrow> tstep a t s = (t', s') \<Longrightarrow> member t' = member t"
    and test_step: "ok s \<Longrightarrow> tstep a t s = (t', s') \<Longrightarrow> \<not> popping t \<Longrightarrow>
      length (buf s) \<le> length (buf s') \<and> (popping t' \<longrightarrow> limit < length (buf s))"
    and pop_step: "ok s \<Longrightarrow> tstep a t s = (t', s') \<Longrightarrow> popping t \<Longrightarrow>
      \<not> popping t' \<and> length (buf s) \<le> Suc (length (buf s'))"
begin

text \<open>While a thread is about to take, the elements missing from the limit are those the others took.\<close>

definition guarded :: "'s \<Rightarrow> 't list \<Rightarrow> bool" where
  "guarded s ts \<longleftrightarrow> (0 < count_if popping ts \<longrightarrow> limit + 1 + count_if popping ts \<le> length (buf s) + count_if member ts)"

lemma popping_le_member: "count_if popping ts \<le> count_if member ts"
  by (rule count_if_mono) (rule popping_member)

lemma guarded_step:
  assumes "guarded s ts" and "ok s" and "i < length ts" and "tstep a (ts ! i) s = (t', s')"
  shows "guarded s' (ts[i := t'])"
proof -
  have m: "count_if member (ts[i := t']) = count_if member ts"
    using count_if_update [OF assms(3), of member t'] step_member [OF assms(2,4)] by (auto split: if_splits)
  note p = count_if_update [OF assms(3), of popping t']
  show ?thesis
  proof (cases "popping (ts ! i)")
    case True
    then have "\<not> popping t'" "length (buf s) \<le> Suc (length (buf s'))" using pop_step [OF assms(2,4)] by blast+
    then show ?thesis using p m True assms(1) by (auto simp: guarded_def)
  next
    case False
    then have t: "length (buf s) \<le> length (buf s')" "popping t' \<longrightarrow> limit < length (buf s)"
      using test_step [OF assms(2,4)] by blast+
    show ?thesis
    proof (cases "popping t'")
      case True
      then show ?thesis using t popping_le_member [of "ts[i := t']"] by (auto simp: guarded_def)
    next
      case no: False
      then show ?thesis using False p m t(1) assms(1) by (auto simp: guarded_def)
    qed
  qed
qed

text \<open>Other activity that only lengthens the queue and only adds threads.\<close>

lemma guarded_grow:
  assumes "guarded s ts" and "length (buf s) \<le> length (buf s')" and "count_if popping us = 0"
  shows "guarded s' (ts @ us)"
  using assms by (auto simp: guarded_def)

lemma nonempty_for_few:
  assumes "guarded s ts" and "count_if member ts \<le> limit + 1" and "i < length ts" and "popping (ts ! i)"
  shows "buf s \<noteq> []"
proof -
  have "0 < count_if popping ts" using count_if_pos [of i ts popping] assms(3,4) by simp
  then show ?thesis using assms(1,2) by (auto simp: guarded_def)
qed

end

end
