(* ===== verification/Receiver_Threads.thy ===== *)
theory Receiver_Threads
  imports Receiver_System Guarded_Pop
begin

text \<open>
  The threads of the log receiver statement by statement. \<^verbatim>\<open>Receiver_System\<close> takes an operation
  of a thread as one step; here a thread stops between the statements that touch shared data:
  a test of a deque's length, a \<^verbatim>\<open>popleft\<close>, an \<^verbatim>\<open>append\<close>, which the interpreter runs as a whole.
  Every accepted connection starts three threads, and the two periodic ones start themselves
  again for ever.
\<close>

section \<open>Threads\<close>

text \<open>
  The points at which a thread stops, in the order of \<^verbatim>\<open>tcp_server.py\<close> and \<^verbatim>\<open>unix_server.py\<close>. A
  timer that has started itself again is back at its start. An ended thread has returned, or
  an exception has left it; \<^verbatim>\<open>popleft\<close> on an empty deque raises \<^verbatim>\<open>IndexError\<close>, the \<^verbatim>\<open>crashed\<close> points.
\<close>

datatype thread =
    Client_recv
  | Client_lines "py_str list"
  | Client_heartbeat py_str "py_str list"
  | Client_spade py_str "py_str list"
  | Client_ended
  | Save_start
  | Save_loop py_str py_str
  | Save_pop py_str py_str
  | Save_write py_str py_str
  | Save_ended
  | Save_crashed
  | Match_loop
  | Match_pop
  | Match_mark py_str
  | Match_crashed
  | Forward_loop nat
  | Forward_pop nat
  | Forward_send nat py_str
  | Forward_ended
  | Forward_crashed

text \<open>What the outside answers in a step: the socket, the clock's file name, the file system, SPADE.\<close>

record answer =
  ans_recv :: recv_result
  ans_name :: py_str
  ans_open :: bool
  ans_send :: send_result

definition client_step :: "answer \<Rightarrow> thread \<Rightarrow> receiver \<Rightarrow> thread \<times> receiver" where
  "client_step a t s =
     (case t of
        Client_recv \<Rightarrow>
          (case ans_recv a of
             Recv_error \<Rightarrow> (Client_ended, s)
           | Data bs \<Rightarrow>
               (case utf8_decode bs of
                  None \<Rightarrow> (Client_ended, s)
                | Some data \<Rightarrow> if length data = 0 then (Client_ended, s) else (Client_lines (splitlines data), s)))
      | Client_lines [] \<Rightarrow> (Client_recv, s)
      | Client_lines (d # ds) \<Rightarrow>
          (case translate_audit_log d of
             None \<Rightarrow> (Client_lines ds, s)
           | Some audit_log \<Rightarrow>
               (Client_heartbeat audit_log ds, s\<lparr>audit_buffer := append_max 1000 (audit_buffer s) audit_log\<rparr>))
      | Client_heartbeat audit_log ds \<Rightarrow>
          (Client_spade audit_log ds, s\<lparr>audit_buffer_hearbeat := append_max 1000 (audit_buffer_hearbeat s) audit_log\<rparr>)
      | Client_spade audit_log ds \<Rightarrow>
          (Client_lines ds, s\<lparr>audit := append_max 10000 (audit s) audit_log\<rparr>)
      | _ \<Rightarrow> (t, s))"

definition save_step :: "answer \<Rightarrow> thread \<Rightarrow> receiver \<Rightarrow> thread \<times> receiver" where
  "save_step a t s =
     (case t of
        Save_start \<Rightarrow> (if 5 < length (audit_buffer s) then Save_loop (ans_name a) [] else Save_start, s)
      | Save_loop name temp \<Rightarrow>
          (if 10 < length (audit_buffer s) then Save_pop name temp else Save_write name temp, s)
      | Save_pop name temp \<Rightarrow>
          (case audit_buffer s of
             [] \<Rightarrow> (Save_crashed, s)
           | x # xs \<Rightarrow> (Save_loop name (temp @ x), s\<lparr>audit_buffer := xs\<rparr>))
      | Save_write name temp \<Rightarrow>
          if ans_open a then (Save_start, s\<lparr>saved := (saved s)(name \<mapsto> temp)\<rparr>) else (Save_ended, s)
      | _ \<Rightarrow> (t, s))"

definition match_step :: "thread \<Rightarrow> receiver \<Rightarrow> thread \<times> receiver" where
  "match_step t s =
     (case t of
        Match_loop \<Rightarrow> (if 10 < length (audit_buffer_hearbeat s) then Match_pop else Match_loop, s)
      | Match_pop \<Rightarrow>
          (case audit_buffer_hearbeat s of
             [] \<Rightarrow> (Match_crashed, s)
           | x # xs \<Rightarrow> (Match_mark x, s\<lparr>audit_buffer_hearbeat := xs\<rparr>))
      | Match_mark audit_log \<Rightarrow>
          (Match_loop,
           case record_command audit_log of
             None \<Rightarrow> s
           | Some cmd \<Rightarrow> s\<lparr>executing_tasks := mark_tasks cmd (executing_tasks s)\<rparr>)
      | _ \<Rightarrow> (t, s))"

definition forward_step :: "answer \<Rightarrow> thread \<Rightarrow> receiver \<Rightarrow> thread \<times> receiver" where
  "forward_step a t s =
     (case t of
        Forward_loop c \<Rightarrow> (if 30 < length (audit s) then Forward_pop c else Forward_loop c, s)
      | Forward_pop c \<Rightarrow>
          (case audit s of
             [] \<Rightarrow> (Forward_crashed, s)
           | x # xs \<Rightarrow> (Forward_send c x, s\<lparr>audit := xs\<rparr>))
      | Forward_send c temp \<Rightarrow>
          (case ans_send a of
             Send_error \<Rightarrow> (Forward_ended, s)
           | Sent_part n \<Rightarrow> (Forward_loop c, s\<lparr>sent := sent s @ [(c, take n (utf8_encode temp))]\<rparr>)
           | Sent_all \<Rightarrow> (Forward_loop c, s\<lparr>sent := sent s @ [(c, utf8_encode temp)]\<rparr>))
      | _ \<Rightarrow> (t, s))"

text \<open>The threads that save, search and forward, and those about to take from their deque.\<close>

fun saver :: "thread \<Rightarrow> bool" where
  "saver Save_start = True" | "saver (Save_loop _ _) = True" | "saver (Save_pop _ _) = True"
| "saver (Save_write _ _) = True" | "saver Save_ended = True" | "saver Save_crashed = True" | "saver _ = False"

fun matcher :: "thread \<Rightarrow> bool" where
  "matcher Match_loop = True" | "matcher Match_pop = True" | "matcher (Match_mark _) = True"
| "matcher Match_crashed = True" | "matcher _ = False"

fun forwarder :: "thread \<Rightarrow> bool" where
  "forwarder (Forward_loop _) = True" | "forwarder (Forward_pop _) = True" | "forwarder (Forward_send _ _) = True"
| "forwarder Forward_ended = True" | "forwarder Forward_crashed = True" | "forwarder _ = False"

fun save_popping :: "thread \<Rightarrow> bool" where
  "save_popping (Save_pop _ _) = True" | "save_popping _ = False"

fun match_popping :: "thread \<Rightarrow> bool" where
  "match_popping Match_pop = True" | "match_popping _ = False"

fun forward_popping :: "thread \<Rightarrow> bool" where
  "forward_popping (Forward_pop _) = True" | "forward_popping _ = False"

definition thread_step :: "answer \<Rightarrow> thread \<Rightarrow> receiver \<Rightarrow> thread \<times> receiver" where
  "thread_step a t s =
     (if saver t then save_step a t s
      else if matcher t then match_step t s
      else if forwarder t then forward_step a t s
      else client_step a t s)"

section \<open>The accepting thread and the heartbeat\<close>

datatype acceptor_pc = A_accept | A_device py_str | A_append py_str | A_start

definition acceptor_step :: "py_str \<Rightarrow> acceptor_pc \<Rightarrow> receiver \<Rightarrow> acceptor_pc \<times> receiver \<times> thread list" where
  "acceptor_step address pc s =
     (case pc of
        A_accept \<Rightarrow>
          (if find (\<lambda>target_ip. ip_address target_ip = address) (executing_tasks s) = None then A_device address else A_start,
           s, [])
      | A_device ip \<Rightarrow> (if ip \<notin> set (iot_device s) then A_append ip else A_start, s, [])
      | A_append ip \<Rightarrow> (A_start, s\<lparr>iot_device := iot_device s @ [ip]\<rparr>, [])
      | A_start \<Rightarrow> (A_accept, s, [Client_recv, Save_start, Match_loop]))"

text \<open>
  The heartbeat thread is the only one that takes from \<^verbatim>\<open>iot_device\<close>, so its test and its
  \<^verbatim>\<open>pop\<close> are one step; the body of the loop of \<^verbatim>\<open>check_expire\<close> is one step.
\<close>

datatype hb_pc = H_start | H_loop py_str | H_register py_str py_str | H_exec py_str py_str | H_check nat | H_ended

definition heartbeat_step :: "hb_env \<Rightarrow> hb_pc \<Rightarrow> receiver \<Rightarrow> hb_pc \<times> receiver" where
  "heartbeat_step E pc s =
     (case pc of
        H_start \<Rightarrow>
          (let token = token_hex E (hb_calls s) in (H_loop (str ''ps '' @ token), hb_add (Token token) s))
      | H_loop key \<Rightarrow>
          if iot_device s = [] then (H_check 0, s)
          else (H_register key (last (iot_device s)), s\<lparr>iot_device := butlast (iot_device s)\<rparr>)
      | H_register key target_ip \<Rightarrow> (H_exec key target_ip, register_task E target_ip key s)
      | H_exec key target_ip \<Rightarrow>
          (case execute_command E target_ip (str ''root'') (str ''toor'') (key @ reset_command) s of
             (out, s') \<Rightarrow> (if out = Raised then H_ended else H_loop key, s'))
      | H_check k \<Rightarrow>
          if k < length (executing_tasks s) then
            (case expire_one E k s of (out, s') \<Rightarrow> (if out = Raised then H_ended else H_check (Suc k), s'))
          else (H_start, hb_add Sleep s)
      | H_ended \<Rightarrow> (H_ended, s))"

section \<open>The system\<close>

record rsys =
  shared :: receiver
  threads :: "thread list"
  acceptor :: acceptor_pc
  heartbeat :: hb_pc
  connections :: nat

definition rsys_init :: rsys where
  "rsys_init = \<lparr>shared = receiver_init, threads = [], acceptor = A_accept, heartbeat = H_start, connections = 0\<rparr>"

text \<open>Who runs next; \<^verbatim>\<open>connections\<close> counts the connections whose threads have been started.\<close>

datatype choice = Run nat answer | Acceptor py_str | Hb | Spade_connects nat

fun rsys_step :: "hb_env \<Rightarrow> choice \<Rightarrow> rsys \<Rightarrow> rsys" where
  "rsys_step E (Run i a) r =
     (if i < length (threads r) then
        case thread_step a (threads r ! i) (shared r) of (t, s) \<Rightarrow> r\<lparr>shared := s, threads := (threads r)[i := t]\<rparr>
      else r)"
| "rsys_step E (Acceptor ip) r =
     (case acceptor_step ip (acceptor r) (shared r) of
        (pc, s, ts) \<Rightarrow> r\<lparr>shared := s, threads := threads r @ ts, acceptor := pc,
          connections := connections r + (if acceptor r = A_start then 1 else 0)\<rparr>)"
| "rsys_step E Hb r = (case heartbeat_step E (heartbeat r) (shared r) of (pc, s) \<Rightarrow> r\<lparr>shared := s, heartbeat := pc\<rparr>)"
| "rsys_step E (Spade_connects c) r = r\<lparr>threads := threads r @ [Forward_loop c]\<rparr>"

definition rsys_run :: "hb_env \<Rightarrow> choice list \<Rightarrow> rsys \<Rightarrow> rsys" where
  "rsys_run E cs r = foldl (\<lambda>r c. rsys_step E c r) r cs"

lemma rsys_run_simps [simp]:
  "rsys_run E [] r = r" "rsys_run E (c # cs) r = rsys_run E cs (rsys_step E c r)"
  "rsys_run E (cs @ ds) r = rsys_run E ds (rsys_run E cs r)"
  by (simp_all add: rsys_run_def)

section \<open>Who takes from a deque\<close>

lemmas thread_step_defs = thread_step_def client_step_def save_step_def match_step_def forward_step_def
lemmas thread_splits = list.splits option.splits recv_result.splits send_result.splits if_splits

lemma thread_step_deques: "deques_ok s \<Longrightarrow> thread_step a t s = (t', s') \<Longrightarrow> deques_ok s'"
  by (cases t) (auto simp: thread_step_defs deques_ok_def append_max_last_n split: thread_splits)

lemma thread_step_kind:
  assumes "thread_step a t s = (t', s')"
  shows "saver t' = saver t" and "matcher t' = matcher t" and "forwarder t' = forwarder t"
  using assms by (cases t; auto simp: thread_step_defs split: thread_splits)+

interpretation saving: guarded_pop deques_ok audit_buffer 10 saver save_popping thread_step
proof
  fix a t s t' s'
  assume s: "deques_ok s" "thread_step a t s = (t', s')"
  show "length (audit_buffer s) \<le> length (audit_buffer s') \<and> (save_popping t' \<longrightarrow> 10 < length (audit_buffer s))"
    if "\<not> save_popping t"
    using s that by (cases t) (auto simp: thread_step_defs deques_ok_def append_max_last_n split: thread_splits)
  show "\<not> save_popping t' \<and> length (audit_buffer s) \<le> Suc (length (audit_buffer s'))" if "save_popping t"
    using s that by (cases t) (auto simp: thread_step_defs split: list.splits)
next
  show "save_popping u \<Longrightarrow> saver u" for u by (cases u) simp_all
qed (simp_all add: thread_step_deques thread_step_kind(1))

interpretation matching: guarded_pop deques_ok audit_buffer_hearbeat 10 matcher match_popping thread_step
proof
  fix a t s t' s'
  assume s: "deques_ok s" "thread_step a t s = (t', s')"
  show "length (audit_buffer_hearbeat s) \<le> length (audit_buffer_hearbeat s') \<and>
      (match_popping t' \<longrightarrow> 10 < length (audit_buffer_hearbeat s))"
    if "\<not> match_popping t"
    using s that by (cases t) (auto simp: thread_step_defs deques_ok_def append_max_last_n split: thread_splits)
  show "\<not> match_popping t' \<and> length (audit_buffer_hearbeat s) \<le> Suc (length (audit_buffer_hearbeat s'))" if "match_popping t"
    using s that by (cases t) (auto simp: thread_step_defs split: list.splits)
next
  show "match_popping u \<Longrightarrow> matcher u" for u by (cases u) simp_all
qed (simp_all add: thread_step_deques thread_step_kind(2))

interpretation forwarding: guarded_pop deques_ok audit 30 forwarder forward_popping thread_step
proof
  fix a t s t' s'
  assume s: "deques_ok s" "thread_step a t s = (t', s')"
  show "length (audit s) \<le> length (audit s') \<and> (forward_popping t' \<longrightarrow> 30 < length (audit s))"
    if "\<not> forward_popping t"
    using s that by (cases t) (auto simp: thread_step_defs deques_ok_def append_max_last_n split: thread_splits)
  show "\<not> forward_popping t' \<and> length (audit s) \<le> Suc (length (audit s'))" if "forward_popping t"
    using s that by (cases t) (auto simp: thread_step_defs split: list.splits)
next
  show "forward_popping u \<Longrightarrow> forwarder u" for u by (cases u) simp_all
qed (simp_all add: thread_step_deques thread_step_kind(3))

text \<open>The deques are safe and every connection has its two periodic threads.\<close>

definition rsys_inv :: "rsys \<Rightarrow> bool" where
  "rsys_inv r \<longleftrightarrow> deques_ok (shared r) \<and>
     saving.guarded (shared r) (threads r) \<and> matching.guarded (shared r) (threads r) \<and>
     forwarding.guarded (shared r) (threads r) \<and>
     count_if saver (threads r) = connections r \<and> count_if matcher (threads r) = connections r"

definition no_crash :: "rsys \<Rightarrow> bool" where
  "no_crash r \<longleftrightarrow> (connections r \<le> 11 \<longrightarrow> Save_crashed \<notin> set (threads r) \<and> Match_crashed \<notin> set (threads r)) \<and>
     (count_if forwarder (threads r) \<le> 31 \<longrightarrow> Forward_crashed \<notin> set (threads r))"

lemma rsys_inv_run:
  assumes "rsys_inv r" and "i < length (threads r)" and "thread_step a (threads r ! i) (shared r) = (t, s)"
  shows "rsys_inv (r\<lparr>shared := s, threads := (threads r)[i := t]\<rparr>)"
proof -
  have d: "deques_ok (shared r)" using assms(1) by (simp add: rsys_inv_def)
  have c: "count_if p ((threads r)[i := t]) = count_if p (threads r)" if "p t = p (threads r ! i)" for p
    using count_if_update [OF assms(2), of p t] that by (simp split: if_splits)
  show ?thesis
    using assms saving.guarded_step [OF _ d assms(2,3)] matching.guarded_step [OF _ d assms(2,3)]
      forwarding.guarded_step [OF _ d assms(2,3)] thread_step_deques [OF d assms(3)]
      c [of saver] c [of matcher] thread_step_kind [OF assms(3)]
    by (simp add: rsys_inv_def)
qed

text \<open>A thread crashes only where it takes from an empty deque.\<close>

lemma thread_step_crash:
  assumes "thread_step a t s = (t', s')"
  shows "t' = Save_crashed \<Longrightarrow> t = Save_crashed \<or> save_popping t \<and> audit_buffer s = []"
    and "t' = Match_crashed \<Longrightarrow> t = Match_crashed \<or> match_popping t \<and> audit_buffer_hearbeat s = []"
    and "t' = Forward_crashed \<Longrightarrow> t = Forward_crashed \<or> forward_popping t \<and> audit s = []"
  using assms by (cases t; auto simp: thread_step_defs split: thread_splits)+

lemma no_crash_run:
  assumes "rsys_inv r" and "no_crash r" and i: "i < length (threads r)" and st: "thread_step a (threads r ! i) (shared r) = (t, s)"
  shows "no_crash (r\<lparr>shared := s, threads := (threads r)[i := t]\<rparr>)"
proof -
  have in_set: "threads r ! i \<in> set (threads r)" using i by simp
  have inv: "saving.guarded (shared r) (threads r)" "matching.guarded (shared r) (threads r)"
      "forwarding.guarded (shared r) (threads r)" "count_if saver (threads r) = connections r"
      "count_if matcher (threads r) = connections r"
    using assms(1) by (simp_all add: rsys_inv_def)
  have f: "count_if forwarder ((threads r)[i := t]) = count_if forwarder (threads r)"
    using count_if_update [OF i, of forwarder t] thread_step_kind(3) [OF st] by (simp split: if_splits)
  have "t \<noteq> Save_crashed" "t \<noteq> Match_crashed" if "connections r \<le> 11"
    using that assms(2) in_set thread_step_crash(1,2) [OF st] saving.nonempty_for_few [OF inv(1) _ i]
      matching.nonempty_for_few [OF inv(2) _ i] inv(4,5)
    by (auto simp: no_crash_def)
  moreover have "t \<noteq> Forward_crashed" if "count_if forwarder (threads r) \<le> 31"
    using that assms(2) in_set thread_step_crash(3) [OF st] forwarding.nonempty_for_few [OF inv(3) _ i]
    by (auto simp: no_crash_def)
  ultimately show ?thesis
    using assms(2) set_update_subset_insert [of "threads r" i t] f by (auto simp: no_crash_def)
qed

text \<open>The other threads leave the deques alone.\<close>

lemma acceptor_step_frame:
  assumes "acceptor_step ip pc s = (pc', s', ts)"
  shows "hb_frame s s'" and "ts = (if pc = A_start then [Client_recv, Save_start, Match_loop] else [])"
  using assms by (auto simp: acceptor_step_def split: acceptor_pc.splits if_splits)

lemma expire_one_frame: "expire_one E k s = (out, s') \<Longrightarrow> hb_frame s s'"
  by (auto simp: expire_one_def Let_def updated_task_frame split: prod.splits if_splits)

lemma heartbeat_step_frame: "heartbeat_step E pc s = (pc', s') \<Longrightarrow> hb_frame s s'"
  by (auto simp: heartbeat_step_def Let_def expire_one_frame dest!: execute_command_state
      split: hb_pc.splits prod.splits if_splits)

lemma guarded_frame:
  assumes "hb_frame s s'"
  shows "saving.guarded s' ts = saving.guarded s ts" and "matching.guarded s' ts = matching.guarded s ts"
    and "forwarding.guarded s' ts = forwarding.guarded s ts" and "deques_ok s' = deques_ok s"
  using assms by (simp_all add: hb_frame_def saving.guarded_def matching.guarded_def forwarding.guarded_def deques_ok_def)

lemma rsys_inv_step:
  assumes "rsys_inv r" and "no_crash r"
  shows "rsys_inv (rsys_step E c r) \<and> no_crash (rsys_step E c r)"
proof (cases c)
  case (Run i a)
  then show ?thesis using assms rsys_inv_run no_crash_run by (auto split: prod.splits)
next
  case (Acceptor ip)
  obtain pc s ts where st: "acceptor_step ip (acceptor r) (shared r) = (pc, s, ts)" by (metis prod_cases3)
  note f = guarded_frame [OF acceptor_step_frame(1) [OF st]] and ts = acceptor_step_frame(2) [OF st]
  have "saving.guarded s (threads r @ ts)" "matching.guarded s (threads r @ ts)" "forwarding.guarded s (threads r @ ts)"
    using assms(1) f ts by (auto simp: rsys_inv_def intro!: saving.guarded_grow matching.guarded_grow forwarding.guarded_grow)
  then show ?thesis using assms f ts Acceptor st by (auto simp: rsys_inv_def no_crash_def)
next
  case Hb
  obtain pc s where st: "heartbeat_step E (heartbeat r) (shared r) = (pc, s)" by force
  note f = guarded_frame [OF heartbeat_step_frame [OF st]]
  then show ?thesis using assms Hb st by (simp add: rsys_inv_def no_crash_def)
next
  case (Spade_connects n)
  then show ?thesis
    using assms
    by (auto simp: rsys_inv_def no_crash_def intro!: saving.guarded_grow matching.guarded_grow forwarding.guarded_grow)
qed

lemma rsys_init_inv: "rsys_inv rsys_init \<and> no_crash rsys_init"
  by (simp add: rsys_inv_def no_crash_def rsys_init_def receiver_init_def deques_ok_def saving.guarded_def
      matching.guarded_def forwarding.guarded_def)

lemma rsys_run_inv: "rsys_inv (rsys_run E cs rsys_init) \<and> no_crash (rsys_run E cs rsys_init)"
  by (induction cs rule: rev_induct) (simp_all add: rsys_init_inv rsys_inv_step)

section \<open>Undisturbed threads\<close>

text \<open>A thread that runs alone, \<^verbatim>\<open>f\<close> being its step on its point and the shared data.\<close>

definition undisturbed :: "('a \<Rightarrow> 'a) \<Rightarrow> 'a \<Rightarrow> 'a \<Rightarrow> bool" where
  "undisturbed f x y \<longleftrightarrow> (\<exists>n>0. (f ^^ n) x = y)"

lemma undisturbed_one: "f x = y \<Longrightarrow> undisturbed f x y"
  unfolding undisturbed_def by (intro exI [of _ 1]) simp

lemma undisturbed_step: "f x = y \<Longrightarrow> undisturbed f y z \<Longrightarrow> undisturbed f x z"
  unfolding undisturbed_def by (elim exE) (rule_tac x = "Suc n" in exI, simp add: funpow_swap1)

lemma undisturbed_two: "f x = y \<Longrightarrow> f y = z \<Longrightarrow> undisturbed f x z"
  by (rule undisturbed_step [OF _ undisturbed_one])

lemma undisturbed_step2: "f w = x \<Longrightarrow> f x = y \<Longrightarrow> undisturbed f y z \<Longrightarrow> undisturbed f w z"
  by (rule undisturbed_step [OF _ undisturbed_step])

lemma undisturbed_step3: "f v = w \<Longrightarrow> f w = x \<Longrightarrow> f x = y \<Longrightarrow> undisturbed f y z \<Longrightarrow> undisturbed f v z"
  by (rule undisturbed_step [OF _ undisturbed_step2])

lemma undisturbed_trans: "undisturbed f x y \<Longrightarrow> undisturbed f y z \<Longrightarrow> undisturbed f x z"
  unfolding undisturbed_def by (metis add_gr_0 comp_apply funpow_add add.commute)

abbreviation alone :: "answer \<Rightarrow> thread \<times> receiver \<Rightarrow> thread \<times> receiver" where
  "alone a \<equiv> \<lambda>(t, s). thread_step a t s"

text \<open>How the loop of \<^verbatim>\<open>save_audit_log\<close> ends.\<close>

definition save_end :: "answer \<Rightarrow> py_str \<Rightarrow> py_str \<Rightarrow> receiver \<Rightarrow> thread \<times> receiver" where
  "save_end a name temp s =
     (let k = length (audit_buffer s) - 10; s1 = s\<lparr>audit_buffer := drop k (audit_buffer s)\<rparr> in
      if ans_open a then (Save_start, s1\<lparr>saved := (saved s)(name \<mapsto> temp @ concat (take k (audit_buffer s)))\<rparr>)
      else (Save_ended, s1))"

lemma save_alone_loop: "undisturbed (alone a) (Save_loop name temp, s) (save_end a name temp s)"
proof (induction "audit_buffer s" arbitrary: s temp)
  case Nil
  show ?case
    by (rule undisturbed_two [of _ _ "(Save_write name temp, s)"])
       (simp_all add: thread_step_defs save_end_def Nil [symmetric])
next
  case (Cons x xs)
  note b = Cons.hyps(2) [symmetric]
  show ?case
  proof (cases "10 < length (audit_buffer s)")
    case True
    let ?s = "s\<lparr>audit_buffer := xs\<rparr>"
    have "length (audit_buffer s) - 10 = Suc (length xs - 10)" using True b by simp
    then have "save_end a name temp s = save_end a name (temp @ x) ?s" using b by (simp add: save_end_def Let_def)
    moreover have "undisturbed (alone a) (Save_loop name (temp @ x), ?s) (save_end a name (temp @ x) ?s)"
      by (rule Cons.hyps(1)) simp
    ultimately have "undisturbed (alone a) (Save_loop name (temp @ x), ?s) (save_end a name temp s)" by simp
    moreover have "alone a (Save_loop name temp, s) = (Save_pop name temp, s)"
      "alone a (Save_pop name temp, s) = (Save_loop name (temp @ x), ?s)"
      using True b by (simp_all add: thread_step_def save_step_def)
    ultimately show ?thesis using undisturbed_step2 [of "alone a"] by blast
  next
    case False
    show ?thesis
      by (rule undisturbed_two [of _ _ "(Save_write name temp, s)"])
         (use False in \<open>simp_all add: thread_step_defs save_end_def\<close>)
  qed
qed

lemma save_alone:
  assumes "save_audit_log (ans_name a) (ans_open a) s = Some (again, s')"
  shows "undisturbed (alone a) (Save_start, s) (if again then Save_start else Save_ended, s')"
proof (cases "5 < length (audit_buffer s)")
  case True
  show ?thesis
    by (rule undisturbed_step [of _ _ "(Save_loop (ans_name a) [], s)"])
       (use True save_alone_loop [of a "ans_name a" "[]" s] assms in
         \<open>auto simp: thread_step_defs save_audit_log_eq save_end_def Let_def split: if_splits\<close>)
next
  case False
  with assms show ?thesis by (intro undisturbed_one) (auto simp: thread_step_defs save_audit_log_eq Let_def)
qed

lemma match_alone:
  "logmatch s = Some s' \<Longrightarrow> undisturbed (alone a) (Match_loop, s) (Match_loop, s')"
proof (induction "audit_buffer_hearbeat s" arbitrary: s)
  case Nil
  note b = Nil.hyps [symmetric]
  have "s' = s" using Nil.prems b unfolding logmatch_def by (subst (asm) while_option_unfold) simp
  with b show ?case by (intro undisturbed_one) (simp add: thread_step_defs)
next
  case (Cons x xs)
  note b = Cons.hyps(2) [symmetric]
  show ?case
  proof (cases "10 < length (audit_buffer_hearbeat s)")
    case True
    let ?s = "s\<lparr>audit_buffer_hearbeat := xs\<rparr>"
    have l: "logmatch (match_record s) = Some s'"
      using Cons.prems True unfolding logmatch_def by (subst (asm) while_option_unfold) simp
    have x: "audit_buffer_hearbeat (match_record s) = xs"
      using b by (simp add: match_record_def Let_def split: option.splits)
    have m: "alone a (Match_mark x, ?s) = (Match_loop, match_record s)"
      using b by (simp add: thread_step_def match_step_def match_record_def Let_def split: option.splits)
    show ?thesis
      by (rule undisturbed_step3 [where w = "(Match_pop, s)", OF _ _ m Cons.hyps(1) [OF x [symmetric] l]]) (use True b in \<open>simp_all add: thread_step_defs\<close>)
  next
    case False
    then have "s' = s" using Cons.prems unfolding logmatch_def by (subst (asm) while_option_unfold) simp
    with False show ?thesis by (intro undisturbed_one) (simp add: thread_step_defs)
  qed
qed

lemma client_alone_lines:
  "undisturbed (alone a) (Client_lines ds, s)
    (Client_recv, foldl (\<lambda>s d. case translate_audit_log d of None \<Rightarrow> s | Some l \<Rightarrow> store_record l s) s ds)"
proof (induction ds arbitrary: s)
  case Nil
  show ?case by (rule undisturbed_one) (simp add: thread_step_defs)
next
  case (Cons d ds)
  show ?case
  proof (cases "translate_audit_log d")
    case None
    show ?thesis
      by (rule undisturbed_step [of _ _ "(Client_lines ds, s)"]) (use None Cons.IH in \<open>simp_all add: thread_step_defs\<close>)
  next
    case (Some l)
    let ?s1 = "s\<lparr>audit_buffer := append_max 1000 (audit_buffer s) l\<rparr>"
    let ?s2 = "?s1\<lparr>audit_buffer_hearbeat := append_max 1000 (audit_buffer_hearbeat s) l\<rparr>"
    show ?thesis
      by (rule undisturbed_step3 [of _ _ "(Client_heartbeat l ds, ?s1)" "(Client_spade l ds, ?s2)" "(Client_lines ds, store_record l s)"])
         (use Some Cons.IH [of "store_record l s"] in \<open>simp_all add: thread_step_defs store_record_def\<close>)
  qed
qed

lemma client_alone:
  assumes "listenToClient [ans_recv a] s = (closed, s')"
  shows "undisturbed (alone a) (Client_recv, s) (if closed then Client_ended else Client_recv, s')"
proof (cases "\<exists>bs data. ans_recv a = Data bs \<and> utf8_decode bs = Some data \<and> data \<noteq> []")
  case True
  then obtain bs data where d: "ans_recv a = Data bs" "utf8_decode bs = Some data" "data \<noteq> []" by blast
  then have "closed = False" "s' = parseEventLog data s" using assms by auto
  then show ?thesis
    by (rule_tac undisturbed_step [of _ _ "(Client_lines (splitlines data), s)"])
       (use d client_alone_lines [of a "splitlines data" s] in \<open>simp_all add: thread_step_defs parseEventLog_def\<close>)
next
  case False
  show ?thesis
    by (rule undisturbed_one; cases "ans_recv a")
       (use False assms in \<open>auto simp: thread_step_defs split: option.splits if_splits\<close>)
qed

lemma forward_alone:
  assumes "listen_client c (\<lambda>_. ans_send a) s = (again, s')"
  shows "undisturbed (alone a) (Forward_loop c, s) (if again then Forward_loop c else Forward_ended, s')"
proof (cases "30 < length (audit s)")
  case True
  then obtain x xs where x: "audit s = x # xs" by (cases "audit s") auto
  show ?thesis
    by (rule undisturbed_step2 [of _ _ "(Forward_pop c, s)" "(Forward_send c x, s\<lparr>audit := xs\<rparr>)", OF _ _ undisturbed_one])
       (use True x assms in \<open>auto simp: thread_step_defs listen_client_def split: send_result.splits\<close>)
next
  case False
  with assms show ?thesis by (intro undisturbed_one) (simp add: thread_step_defs listen_client_def)
qed

text \<open>The accepting thread, up to the start of the threads, and the heartbeat.\<close>

abbreviation acceptor_alone :: "py_str \<Rightarrow> acceptor_pc \<times> receiver \<Rightarrow> acceptor_pc \<times> receiver" where
  "acceptor_alone ip \<equiv> \<lambda>(pc, s). case acceptor_step ip pc s of (pc', s', _) \<Rightarrow> (pc', s')"

lemma accept_alone: "undisturbed (acceptor_alone ip) (A_accept, s) (A_start, accept_client ip s)"
proof (cases "find (\<lambda>t. ip_address t = ip) (executing_tasks s) = None")
  case True
  show ?thesis
  proof (cases "ip \<in> set (iot_device s)")
    case False
    show ?thesis
      by (rule undisturbed_step2 [of _ _ "(A_device ip, s)" "(A_append ip, s)", OF _ _ undisturbed_one])
         (use True False in \<open>simp_all add: acceptor_step_def accept_client_def\<close>)
  next
    case in_devices: True
    show ?thesis
      by (rule undisturbed_two [of _ _ "(A_device ip, s)"])
         (use True in_devices in \<open>simp_all add: acceptor_step_def accept_client_def\<close>)
  qed
qed (intro undisturbed_one, simp add: acceptor_step_def accept_client_def)

abbreviation hb_alone :: "hb_env \<Rightarrow> hb_pc \<times> receiver \<Rightarrow> hb_pc \<times> receiver" where
  "hb_alone E \<equiv> \<lambda>(pc, s). heartbeat_step E pc s"

lemma check_alone:
  "undisturbed (hb_alone E) (H_check k, s)
    (case check_expire_from E k s of (out, s') \<Rightarrow> if out = Raised then (H_ended, s') else (H_start, hb_add Sleep s'))"
proof (induction E k s rule: check_expire_from.induct)
  case (1 E k s)
  show ?case
  proof (cases "k < length (executing_tasks s)")
    case True
    obtain out s1 where x: "expire_one E k s = (out, s1)" by force
    show ?thesis
    proof (cases "out = Raised")
      case raised: True
      show ?thesis
        by (rule undisturbed_one) (use True x raised in \<open>simp add: heartbeat_step_def check_expire_from.simps [of E k s]\<close>)
    next
      case False
      have "hb_alone E (H_check k, s) = (H_check (Suc k), s1)" using True x False by (simp add: heartbeat_step_def)
      moreover have "check_expire_from E k s = check_expire_from E (Suc k) s1"
        using True x False by (simp add: check_expire_from.simps [of E k s])
      ultimately show ?thesis
        using "1.IH" [OF True x [symmetric] refl] False undisturbed_step [of "hb_alone E"] by simp
    qed
  next
    case False
    show ?thesis
      by (rule undisturbed_one) (use False in \<open>simp add: heartbeat_step_def check_expire_from.simps [of E k s]\<close>)
  qed
qed

lemma register_alone:
  "undisturbed (hb_alone E) (H_loop key, s)
    (case register_devices E key s of (out, s') \<Rightarrow> (if out = Raised then H_ended else H_check 0, s'))"
proof (induction E key s rule: register_devices.induct)
  case (1 E key s)
  show ?case
  proof (cases "iot_device s = []")
    case True
    show ?thesis
      by (rule undisturbed_one) (use True in \<open>simp add: heartbeat_step_def register_devices.simps [of E key s]\<close>)
  next
    case False
    let ?ip = "last (iot_device s)" and ?s = "s\<lparr>iot_device := butlast (iot_device s)\<rparr>"
    obtain out s1 where x: "register_one E key s = (out, s1)" by force
    have st: "hb_alone E (H_loop key, s) = (H_register key ?ip, ?s)"
      "hb_alone E (H_register key ?ip, ?s) = (H_exec key ?ip, register_task E ?ip key ?s)"
      "hb_alone E (H_exec key ?ip, register_task E ?ip key ?s) = (if out = Raised then H_ended else H_loop key, s1)"
      using False x by (simp_all add: heartbeat_step_def register_one_def Let_def)
    show ?thesis
    proof (cases "out = Raised")
      case True
      show ?thesis
        by (rule undisturbed_step2 [OF st(1,2) undisturbed_one])
           (use st(3) True False x in \<open>simp add: register_devices.simps [of E key s]\<close>)
    next
      case nr: False
      have "register_devices E key s = register_devices E key s1"
        using False x nr by (simp add: register_devices.simps [of E key s])
      with "1.IH" [OF False x [symmetric] refl nr] show ?thesis
        using undisturbed_step3 [OF st] nr by simp
    qed
  qed
qed

lemma round_alone:
  "undisturbed (hb_alone E) (H_start, s)
    (case heartbeat_round E s of (out, s') \<Rightarrow> (if out = Raised then H_ended else H_start, s'))"
proof -
  let ?key = "str ''ps '' @ token_hex E (hb_calls s)" and ?s = "hb_add (Token (token_hex E (hb_calls s))) s"
  obtain out s2 where r: "register_devices E ?key ?s = (out, s2)" by force
  have start: "hb_alone E (H_start, s) = (H_loop ?key, ?s)" by (simp add: heartbeat_step_def Let_def)
  have reg: "undisturbed (hb_alone E) (H_start, s) (if out = Raised then H_ended else H_check 0, s2)"
    by (rule undisturbed_step [of "hb_alone E", OF start]) (use register_alone [of E ?key ?s] r in simp)
  show ?thesis
  proof (cases "out = Raised")
    case True
    then have "heartbeat_round E s = (Raised, s2)" using r by (simp add: heartbeat_round_def Let_def)
    with reg True show ?thesis by simp
  next
    case False
    have "heartbeat_round E s = (case check_expire_from E 0 s2 of (out3, s3) \<Rightarrow>
        if out3 = Raised then (Raised, s3) else (Returned, hb_add Sleep s3))"
      using r False by (simp add: heartbeat_round_def check_expire_def Let_def)
    with undisturbed_trans [OF reg] check_alone [of E 0 s2] False show ?thesis
      by (cases "check_expire_from E 0 s2") (auto split: if_splits)
  qed
qed

section \<open>Schedules\<close>

text \<open>Threads that make the same move one after the other, without touching the shared data.\<close>

lemma run_all:
  assumes "distinct is" and "\<forall>i \<in> set is. i < length (threads r) \<and> threads r ! i = t"
    and "thread_step a t (shared r) = (t', shared r)"
  shows "\<exists>ts. rsys_run E (map (\<lambda>i. Run i a) is) r = r\<lparr>threads := ts\<rparr> \<and> length ts = length (threads r) \<and>
    (\<forall>j < length ts. ts ! j = (if j \<in> set is then t' else threads r ! j))"
  using assms
proof (induction "is" arbitrary: r)
  case (Cons i js)
  let ?r = "r\<lparr>threads := (threads r)[i := t']\<rparr>"
  have one: "rsys_step E (Run i a) r = ?r" using Cons.prems(2,3) by simp
  have "\<forall>j \<in> set js. j < length (threads ?r) \<and> threads ?r ! j = t" using Cons.prems(1,2) by (auto simp: nth_list_update)
  from Cons.IH [OF _ this] Cons.prems(1,3) obtain ts where
      "rsys_run E (map (\<lambda>i. Run i a) js) ?r = ?r\<lparr>threads := ts\<rparr>" "length ts = length (threads ?r)"
      "\<forall>j < length ts. ts ! j = (if j \<in> set js then t' else threads ?r ! j)"
    by auto
  with one Cons.prems(1) show ?case by (intro exI [of _ ts]) (auto simp: nth_list_update)
next
  case Nil
  show ?case by (intro exI [of _ "threads r"]) simp
qed

text \<open>More threads about to take than there are records: one of them finds the deque empty.\<close>

lemma too_many_pops:
  assumes "distinct is" and "\<forall>i \<in> set is. i < length (threads r) \<and> threads r ! i = Save_pop name temp"
    and "length (audit_buffer (shared r)) < length is"
  shows "\<exists>cs. connections (rsys_run E cs r) = connections r \<and> Save_crashed \<in> set (threads (rsys_run E cs r))"
  using assms
proof (induction "is" arbitrary: r)
  case (Cons i js)
  have i: "i < length (threads r)" "threads r ! i = Save_pop name temp" using Cons.prems(2) by simp_all
  obtain a :: answer where True by simp
  show ?case
  proof (cases "audit_buffer (shared r)")
    case Nil
    then have "rsys_step E (Run i a) r = r\<lparr>threads := (threads r)[i := Save_crashed]\<rparr>"
      using i by (simp add: thread_step_defs)
    then have "connections (rsys_run E [Run i a] r) = connections r \<and> Save_crashed \<in> set (threads (rsys_run E [Run i a] r))"
      using i(1) by (simp add: set_update_memI)
    then show ?thesis by blast
  next
    case (Cons x xs)
    let ?r = "r\<lparr>shared := (shared r)\<lparr>audit_buffer := xs\<rparr>, threads := (threads r)[i := Save_loop name (temp @ x)]\<rparr>"
    have "rsys_step E (Run i a) r = ?r" using i Cons by (simp add: thread_step_defs)
    moreover have "\<exists>cs. connections (rsys_run E cs ?r) = connections ?r \<and> Save_crashed \<in> set (threads (rsys_run E cs ?r))"
      by (rule Cons.IH) (use \<open>distinct (i # js)\<close> Cons.prems(2,3) \<open>audit_buffer (shared r) = x # xs\<close> in \<open>auto simp: nth_list_update\<close>)
    ultimately show ?thesis by (metis rsys_run_simps(2) rsys.select_convs(5) rsys.surjective rsys.update_convs(1,2))
  qed
qed simp

text \<open>A thread that runs alone within the system.\<close>

lemma run_alone:
  assumes "undisturbed (alone a) (threads r ! i, shared r) (t, s)" and "i < length (threads r)"
  shows "\<exists>cs. rsys_run E cs r = r\<lparr>shared := s, threads := (threads r)[i := t]\<rparr>"
proof -
  have "rsys_run E (replicate n (Run i a)) r = r\<lparr>shared := s, threads := (threads r)[i := t]\<rparr>"
    if "(alone a ^^ n) (threads r ! i, shared r) = (t, s)" for n
    using that assms(2)
  proof (induction n arbitrary: r)
    case (Suc n)
    obtain t1 s1 where st: "thread_step a (threads r ! i) (shared r) = (t1, s1)" by force
    let ?r = "r\<lparr>shared := s1, threads := (threads r)[i := t1]\<rparr>"
    have "rsys_run E (replicate n (Run i a)) ?r = ?r\<lparr>shared := s, threads := (threads ?r)[i := t]\<rparr>"
      by (rule Suc.IH) (use Suc.prems st in \<open>simp_all add: funpow_swap1\<close>)
    with st Suc.prems(2) show ?case by simp
  next
    case 0
    then show ?case by auto
  qed
  with assms(1) show ?thesis unfolding undisturbed_def by blast
qed

text \<open>One accepted connection after the other.\<close>

lemma connect_once:
  assumes "acceptor r = A_accept"
  shows "\<exists>cs s. rsys_run E cs r = r\<lparr>shared := s, threads := threads r @ [Client_recv, Save_start, Match_loop],
    connections := connections r + 1\<rparr> \<and> hb_frame (shared r) s"
proof -
  let ?a = "Acceptor ip"
  consider (known) "find (\<lambda>t. ip_address t = ip) (executing_tasks (shared r)) \<noteq> None"
    | (waiting) "find (\<lambda>t. ip_address t = ip) (executing_tasks (shared r)) = None" "ip \<in> set (iot_device (shared r))"
    | (new) "find (\<lambda>t. ip_address t = ip) (executing_tasks (shared r)) = None" "ip \<notin> set (iot_device (shared r))"
    by blast
  then show ?thesis
  proof cases
    case known
    then show ?thesis using assms
      by (intro exI [of _ "[?a, ?a]"] exI [of _ "shared r"]) (auto simp: acceptor_step_def)
  next
    case waiting
    then show ?thesis using assms
      by (intro exI [of _ "[?a, ?a, ?a]"] exI [of _ "shared r"]) (simp add: acceptor_step_def)
  next
    case new
    then show ?thesis using assms
      by (intro exI [of _ "[?a, ?a, ?a, ?a]"] exI [of _ "(shared r)\<lparr>iot_device := iot_device (shared r) @ [ip]\<rparr>"])
         (simp add: acceptor_step_def)
  qed
qed

lemma connect_many:
  "\<exists>cs s. rsys_run E cs rsys_init = rsys_init\<lparr>shared := s,
     threads := concat (replicate n [Client_recv, Save_start, Match_loop]), connections := n\<rparr> \<and> hb_frame receiver_init s"
proof (induction n)
  case 0
  show ?case by (intro exI [of _ "[]"] exI [of _ receiver_init]) (simp add: rsys_init_def)
next
  case (Suc n)
  then obtain cs s where r: "rsys_run E cs rsys_init = rsys_init\<lparr>shared := s,
      threads := concat (replicate n [Client_recv, Save_start, Match_loop]), connections := n\<rparr>" (is "_ = ?r")
      "hb_frame receiver_init s"
    by blast
  have "acceptor ?r = A_accept" by (simp add: rsys_init_def)
  from connect_once [OF this, of E] obtain ds s' where
      "rsys_run E ds ?r = ?r\<lparr>shared := s', threads := threads ?r @ [Client_recv, Save_start, Match_loop], connections := n + 1\<rparr>"
      "hb_frame s s'"
    by auto
  moreover have "concat (replicate n xs) @ xs = concat (replicate (Suc n) xs)" for xs :: "thread list"
    by (induction n) simp_all
  ultimately show ?case using r
    by (intro exI [of _ "cs @ ds"] exI [of _ s']) (simp add: hb_frame_def)
qed

lemma nth_concat_triples:
  "k < n \<Longrightarrow> concat (replicate n [x, y, z]) ! (3 * k + 1) = y"
proof (induction n arbitrary: k)
  case (Suc n)
  then show ?case by (cases k) auto
qed simp

lemma length_concat_triples: "length (concat (replicate n [x, y, z])) = 3 * n"
  by (induction n) simp_all

text \<open>A text of \<^verbatim>\<open>n\<close> records, which the receiver stores.\<close>

definition item_line :: py_str where
  "item_line = str ''audit item,n''"

definition item_lines :: "nat \<Rightarrow> py_str" where
  "item_lines n = concat (replicate n (item_line @ [10]))"

lemma item_line_record: "\<exists>l. translate_audit_log item_line = Some l"
  by (simp add: item_line_def translate_audit_log_def format_audit_msg_def str_def)

lemma item_lines_received:
  assumes "deques_ok s" and "audit_buffer s = []" and "0 < n" and "n \<le> 1000"
  shows "\<exists>s'. listenToClient [Data (item_lines n)] s = (False, s') \<and> length (audit_buffer s') = n"
proof -
  have ascii: "list_all (\<lambda>b. b < 128) (item_lines n)"
    by (induction n) (simp_all add: item_lines_def item_line_def str_def)
  have "one_line item_line" by (simp add: item_line_def str_def line_break_def)
  then have "splitlines (item_lines n) = replicate n item_line"
    by (induction n) (simp_all add: item_lines_def splitlines_line)
  moreover obtain l where "translate_audit_log item_line = Some l" using item_line_record by blast
  moreover have "List.map_filter f (replicate k x) = replicate k y" if "f x = Some y" for f :: "py_str \<Rightarrow> py_str option" and k x y
    using that by (induction k) (simp_all add: List.map_filter_simps)
  ultimately have "records_of (item_lines n) = replicate n l" by (simp add: records_of_def)
  moreover have "item_lines n \<noteq> []" using assms(3) by (cases n) (simp_all add: item_lines_def)
  ultimately show ?thesis
    using assms by (simp add: utf8_decode_ascii [OF ascii] parseEventLog_eq)
qed

lemma twelve_at_the_loop:
  assumes "12 \<le> n"
  obtains cs r where "rsys_run E cs rsys_init = r" and "connections r = n" and "length (threads r) = 3 * n"
    and "length (audit_buffer (shared r)) = 11" and "\<forall>k < 12. threads r ! (3 * k + 1) = Save_start"
proof -
  obtain cs s where r: "rsys_run E cs rsys_init = rsys_init\<lparr>shared := s,
      threads := concat (replicate n [Client_recv, Save_start, Match_loop]), connections := n\<rparr>" (is "_ = ?r")
      "hb_frame receiver_init s"
    using connect_many by blast
  have s: "deques_ok s" "audit_buffer s = []" using r(2) by (auto simp: hb_frame_def receiver_init_def deques_ok_def)
  let ?a = "\<lparr>ans_recv = Data (item_lines 11), ans_name = [], ans_open = True, ans_send = Sent_all\<rparr>"
  obtain s' where s': "listenToClient [ans_recv ?a] s = (False, s')" "length (audit_buffer s') = 11"
    using item_lines_received [OF s, of 11] by auto
  have t0: "threads ?r ! 0 = Client_recv" "0 < length (threads ?r)" using assms by (cases n; simp)+
  have "undisturbed (alone ?a) (threads ?r ! 0, shared ?r) (Client_recv, s')"
    using client_alone [OF s'(1)] t0(1) by simp
  from run_alone [OF this t0(2), of E] obtain ds where
      d: "rsys_run E ds ?r = ?r\<lparr>shared := s', threads := (threads ?r)[0 := Client_recv]\<rparr>" by blast
  show thesis
  proof (rule that [of "cs @ ds"])
    show "rsys_run E (cs @ ds) rsys_init = ?r\<lparr>shared := s', threads := (threads ?r)[0 := Client_recv]\<rparr>"
      using r(1) d by simp
    show "\<forall>k < 12. threads (?r\<lparr>shared := s', threads := (threads ?r)[0 := Client_recv]\<rparr>) ! (3 * k + 1) = Save_start"
      using assms nth_concat_triples [of _ n Client_recv Save_start Match_loop] by auto
  qed (use s'(2) in \<open>simp_all add: length_concat_triples\<close>)
qed

section \<open>Properties\<close>


text \<open>
  C15: up to eleven connections, the threads never take from an empty deque. For every
  schedule of all threads, as long as no more than eleven connections have been accepted, no
  thread that saves or searches records ends with an \<^verbatim>\<open>IndexError\<close>, although the test of the
  length and the \<^verbatim>\<open>popleft\<close> are separate steps; for the threads that forward to SPADE the same
  holds up to 31 connections.
\<close>

theorem few_connections_are_safe:
  assumes "connections (rsys_run E cs rsys_init) \<le> 11" and "count_if forwarder (threads (rsys_run E cs rsys_init)) \<le> 31"
  shows "Save_crashed \<notin> set (threads (rsys_run E cs rsys_init)) \<and> Match_crashed \<notin> set (threads (rsys_run E cs rsys_init)) \<and>
    Forward_crashed \<notin> set (threads (rsys_run E cs rsys_init))"
  using rsys_run_inv [of E cs] assms by (simp add: no_crash_def)

theorem few_connections_are_safe_witness:
  "\<exists>cs. connections (rsys_run (still_env 9) cs rsys_init) = 11 \<and>
    Save_crashed \<notin> set (threads (rsys_run (still_env 9) cs rsys_init)) \<and>
    Match_crashed \<notin> set (threads (rsys_run (still_env 9) cs rsys_init)) \<and>
    Forward_crashed \<notin> set (threads (rsys_run (still_env 9) cs rsys_init))"
proof -
  obtain cs s where r: "rsys_run (still_env 9) cs rsys_init = rsys_init\<lparr>shared := s,
      threads := concat (replicate 11 [Client_recv, Save_start, Match_loop]), connections := 11\<rparr>"
    using connect_many [of "still_env 9" 11] by blast
  have "count_if forwarder (concat (replicate n [Client_recv, Save_start, Match_loop])) = 0" for n
    by (induction n) simp_all
  with few_connections_are_safe [of "still_env 9" cs] r show ?thesis by (intro exI [of _ cs]) simp
qed

text \<open>
  C33: the bound is sharp. For any number of connections from twelve on there is a schedule in
  which a thread that saves records takes from the empty deque and ends: eleven records wait,
  twelve threads pass the test of the length, and eleven of them take a record first.
\<close>

theorem twelve_connections_can_crash:
  assumes "12 \<le> n"
  shows "\<exists>cs. connections (rsys_run E cs rsys_init) = n \<and> Save_crashed \<in> set (threads (rsys_run E cs rsys_init))"
proof -
  obtain cs r where r: "rsys_run E cs rsys_init = r" "connections r = n" "length (threads r) = 3 * n"
      "length (audit_buffer (shared r)) = 11" "\<forall>k < 12. threads r ! (3 * k + 1) = Save_start"
    by (rule twelve_at_the_loop [OF assms])
  define js :: "nat list" where "js = map (\<lambda>k. 3 * k + 1) [0..<12]"
  have js: "distinct js" "length js = 12" "\<And>j. j \<in> set js \<longleftrightarrow> (\<exists>k < 12. j = 3 * k + 1)"
    by (auto simp: js_def distinct_map inj_on_def)
  have at: "\<forall>j \<in> set js. j < length (threads r) \<and> threads r ! j = Save_start"
    using js(3) r(3,5) assms by auto
  obtain a :: answer where True by simp
  let ?loop = "Save_loop (ans_name a) []" and ?pop = "Save_pop (ans_name a) []"
  have "thread_step a Save_start (shared r) = (?loop, shared r)" using r(4) by (simp add: thread_step_defs)
  from run_all [OF js(1) at this, of E] obtain ts where
      t: "rsys_run E (map (\<lambda>j. Run j a) js) r = r\<lparr>threads := ts\<rparr>" "length ts = length (threads r)"
        "\<forall>j < length ts. ts ! j = (if j \<in> set js then ?loop else threads r ! j)" by blast
  let ?r1 = "r\<lparr>threads := ts\<rparr>"
  have at1: "\<forall>j \<in> set js. j < length (threads ?r1) \<and> threads ?r1 ! j = ?loop" using at t(2,3) by auto
  have "thread_step a ?loop (shared ?r1) = (?pop, shared ?r1)" using r(4) by (simp add: thread_step_defs)
  from run_all [OF js(1) at1 this, of E] obtain us where
      u: "rsys_run E (map (\<lambda>j. Run j a) js) ?r1 = ?r1\<lparr>threads := us\<rparr>" "length us = length (threads ?r1)"
        "\<forall>j < length us. us ! j = (if j \<in> set js then ?pop else threads ?r1 ! j)" by blast
  let ?r2 = "?r1\<lparr>threads := us\<rparr>"
  have "\<forall>j \<in> set js. j < length (threads ?r2) \<and> threads ?r2 ! j = ?pop" using at1 u(2,3) by auto
  from too_many_pops [OF js(1) this, of E] r(4) js(2) obtain ds where
      "connections (rsys_run E ds ?r2) = n" "Save_crashed \<in> set (threads (rsys_run E ds ?r2))" using r(2) by auto
  moreover have "rsys_run E (cs @ map (\<lambda>j. Run j a) js @ map (\<lambda>j. Run j a) js @ ds) rsys_init = rsys_run E ds ?r2"
    using r(1) t(1) u(1) by simp
  ultimately show ?thesis by metis
qed

theorem twelve_connections_can_crash_witness:
  "\<exists>cs. connections (rsys_run (still_env 9) cs rsys_init) = 12 \<and>
    Save_crashed \<in> set (threads (rsys_run (still_env 9) cs rsys_init))"
  by (rule twelve_connections_can_crash) simp

text \<open>
  The periodic threads accumulate. After every schedule there are as many saving and as many
  searching threads as connections have ever been accepted, none of which ends with its
  connection; and TA-Collect opens a connection for every message.
\<close>

theorem timers_accumulate:
  "count_if saver (threads (rsys_run E cs rsys_init)) = connections (rsys_run E cs rsys_init) \<and>
   count_if matcher (threads (rsys_run E cs rsys_init)) = connections (rsys_run E cs rsys_init)"
  using rsys_run_inv [of E cs] by (simp add: rsys_inv_def)

text \<open>
  A device that connects again at the wrong moment is supervised twice. When its second
  connection is checked after the heartbeat thread has taken its address from the deque of new
  devices and before it has registered the task, the address is in neither list and is added
  again: afterwards it has a task and waits for another one, which the atomic operations rule
  out.
\<close>

theorem reconnect_supervises_twice:
  "\<exists>cs. supervised (shared (rsys_run E cs rsys_init)) = [ip, ip]"
proof -
  let ?a = "Acceptor ip"
  have "supervised (shared (rsys_run E [?a, ?a, ?a, ?a, Hb, Hb, ?a, ?a, ?a, Hb] rsys_init)) = [ip, ip]"
    by (simp add: rsys_init_def receiver_init_def acceptor_step_def heartbeat_step_def supervised_def Let_def)
  then show ?thesis by blast
qed

end
