(* ===== verification/Spade_Syscalls.thy ===== *)
theory Spade_Syscalls
  imports Main
begin

text \<open>
  The part of the SPADE patch, \<^verbatim>\<open>src/SPADE/spade_src.patch\<close>, that is a program of its own: the
  table that names the system calls of a 64-bit Arm device by their numbers, which the patched
  reporter uses in place of the table of its own processor. The other changes of the patch sit
  in methods of SPADE that are not in the repository.
\<close>

text \<open>The constants of the enumeration that the patch mentions.\<close>

datatype (plugins only: size) SYSCALL =
    MQ_OPEN | MQ_TIMEDSEND | MQ_TIMEDRECEIVE | MQ_UNLINK | SHMGET | SHMAT | SHMDT | SHMCTL |
    MSGGET | MSGSND | MSGRCV | MSGCTL | SETNS | UNSHARE | PIVOT_ROOT | CHROOT | CHDIR | FCHDIR |
    LSEEK | MADVISE | KILL | PTRACE | SOCKETPAIR | INIT_MODULE | FINIT_MODULE | TEE | SPLICE |
    VMSPLICE | ACCEPT | ACCEPT4 | BIND | CLOSE | CLONE | CONNECT | DUP | DUP3 | EXECVE | EXIT |
    EXIT_GROUP | FCHMOD | FCHMODAT | FCNTL | FTRUNCATE | LINKAT | MKNODAT | MMAP | MPROTECT |
    OPENAT | PIPE2 | PREAD | PREADV | PWRITE | PWRITEV | READ | READV | RECVFROM | RECVMSG |
    RENAMEAT | SENDMSG | SENDTO | SETFSGID | SETFSUID | SETGID | SETREGID | SETRESGID |
    SETRESUID | SETREUID | SETUID | SOCKET | SYMLINKAT | TRUNCATE | UNLINKAT | WRITE | WRITEV |
    UNSUPPORTED

text \<open>The cases of the switch, in the order of the source.\<close>

definition arm_cases :: "(int \<times> SYSCALL) list" where
  "arm_cases = [
     (180, MQ_OPEN), (182, MQ_TIMEDSEND), (183, MQ_TIMEDRECEIVE), (181, MQ_UNLINK),
     (194, SHMGET), (196, SHMAT), (197, SHMDT), (195, SHMCTL), (186, MSGGET), (301, MSGSND),
     (188, MSGRCV), (187, MSGCTL), (268, SETNS), (97, UNSHARE), (41, PIVOT_ROOT), (51, CHROOT),
     (49, CHDIR), (50, FCHDIR), (62, LSEEK), (233, MADVISE), (129, KILL), (117, PTRACE),
     (199, SOCKETPAIR), (105, INIT_MODULE), (273, FINIT_MODULE), (77, TEE), (76, SPLICE),
     (75, VMSPLICE), (202, ACCEPT), (242, ACCEPT4), (200, BIND), (57, CLOSE), (220, CLONE),
     (203, CONNECT), (23, DUP), (24, DUP3), (221, EXECVE), (93, EXIT), (94, EXIT_GROUP),
     (52, FCHMOD), (53, FCHMODAT), (25, FCNTL), (46, FTRUNCATE), (37, LINKAT), (33, MKNODAT),
     (222, MMAP), (226, MPROTECT), (56, OPENAT), (59, PIPE2), (67, PREAD), (69, PREADV),
     (68, PWRITE), (70, PWRITEV), (63, READ), (65, READV), (207, RECVFROM), (212, RECVMSG),
     (38, RENAMEAT), (211, SENDMSG), (206, SENDTO), (152, SETFSGID), (151, SETFSUID),
     (144, SETGID), (143, SETREGID), (149, SETRESGID), (147, SETRESUID), (145, SETREUID),
     (146, SETUID), (198, SOCKET), (36, SYMLINKAT), (45, TRUNCATE), (35, UNLINKAT), (64, WRITE),
     (66, WRITEV)]"

definition get64BitArmSyscall :: "int \<Rightarrow> SYSCALL" where
  "get64BitArmSyscall syscallNum =
     (case map_of arm_cases syscallNum of Some c \<Rightarrow> c | None \<Rightarrow> UNSUPPORTED)"

text \<open>The reporter's \<^verbatim>\<open>getSyscall\<close>, which the patch redirects to the new table.\<close>

definition getSyscall :: "int \<Rightarrow> SYSCALL" where
  "getSyscall syscallNumber = get64BitArmSyscall syscallNumber"

lemma distinct_numbers: "distinct (map fst arm_cases)"
  by (simp add: arm_cases_def)

lemma distinct_names: "distinct (map snd arm_cases)"
  by (simp add: arm_cases_def)

lemma unsupported_not_a_case: "(n, UNSUPPORTED) \<notin> set arm_cases"
  by (simp add: arm_cases_def)

text \<open>The numbers read backwards.\<close>

definition arm_number :: "SYSCALL \<Rightarrow> int option" where
  "arm_number c = map_of (map prod.swap arm_cases) c"

text \<open>
  A system call of the device is named by exactly one number. The reporter answers with
  a supported name exactly for the number that belongs to that name, so no two system calls
  are taken for each other; all other numbers are unsupported.
\<close>

theorem syscall_names_are_unique:
  "getSyscall n = c \<and> c \<noteq> UNSUPPORTED \<longleftrightarrow> arm_number c = Some n"
proof -
  have "distinct (map fst (map prod.swap arm_cases))"
    using distinct_names by (simp add: o_def)
  then have "arm_number c = Some n \<longleftrightarrow> (n, c) \<in> set arm_cases"
    by (auto simp: arm_number_def dest: map_of_SomeD)
  also have "\<dots> \<longleftrightarrow> map_of arm_cases n = Some c"
    using distinct_numbers by (auto dest: map_of_SomeD)
  also have "\<dots> \<longleftrightarrow> getSyscall n = c \<and> c \<noteq> UNSUPPORTED"
    using unsupported_not_a_case
    by (auto simp: getSyscall_def get64BitArmSyscall_def split: option.splits dest: map_of_SomeD)
  finally show ?thesis by simp
qed

text \<open>Of the message queue calls, 186 to 189 on this architecture, the last is looked for at another number.\<close>

lemma msgsnd_case:
  "map getSyscall [186, 187, 188, 189, 301] = [MSGGET, MSGCTL, MSGRCV, UNSUPPORTED, MSGSND]"
  by (simp add: getSyscall_def get64BitArmSyscall_def arm_cases_def)

end
