(* ===== verification/Spade_Reporter.thy ===== *)
theory Spade_Reporter
  imports Spade_Syscalls
begin

text \<open>
  What the SPADE patch, \<^verbatim>\<open>src/SPADE/spade_src.patch\<close>, changes in the class \<^verbatim>\<open>Audit\<close>: the loop that
  reads events, and which handler a network system call reaches. The patch shows both the old
  and the new text, so both are modelled. The reader, the handlers and the lines of the loop's
  inner exception handler that the patch does not show are parameters.
\<close>

section \<open>The main event loop\<close>

text \<open>What \<^verbatim>\<open>readEventData\<close> gives: an event, null at the end of the stream, or one of two exceptions.\<close>

datatype 'e reading = Event 'e | Null_event | Malformed_data | Read_exception

text \<open>
  \<^verbatim>\<open>finish\<close> is \<^verbatim>\<open>finishEvent\<close>, None when it raises; \<^verbatim>\<open>handler\<close> is the unseen rest of the inner
  handler, with whether the loop goes on. The result says whether the loop has ended; with no
  reading left the thread waits in \<^verbatim>\<open>readEventData\<close>.
\<close>

fun main_loop :: "('e \<Rightarrow> 's \<Rightarrow> 's option) \<Rightarrow> ('s \<Rightarrow> 's \<times> bool) \<Rightarrow> 'e reading list \<Rightarrow> 's \<Rightarrow> 's \<times> bool" where
  "main_loop finish handler [] s = (s, False)"
| "main_loop finish handler (Null_event # rs) s = (s, True)"
| "main_loop finish handler (Event eventData # rs) s =
     (case finish eventData s of
        Some s' \<Rightarrow> main_loop finish handler rs s'
      | None \<Rightarrow> (case handler s of (s', goes_on) \<Rightarrow> if goes_on then main_loop finish handler rs s' else (s', True)))"
| "main_loop finish handler (Malformed_data # rs) s = main_loop finish handler rs s"
| "main_loop finish handler (Read_exception # rs) s = (s, True)"

text \<open>The loop before the patch, with the configuration value \<^verbatim>\<open>FAIL_FAST\<close>.\<close>

fun main_loop_old :: "bool \<Rightarrow> ('e \<Rightarrow> 's \<Rightarrow> 's option) \<Rightarrow> ('s \<Rightarrow> 's \<times> bool) \<Rightarrow> 'e reading list \<Rightarrow> 's \<Rightarrow> 's \<times> bool" where
  "main_loop_old fail_fast finish handler [] s = (s, False)"
| "main_loop_old fail_fast finish handler (Null_event # rs) s = (s, True)"
| "main_loop_old fail_fast finish handler (Event eventData # rs) s =
     (case finish eventData s of
        Some s' \<Rightarrow> main_loop_old fail_fast finish handler rs s'
      | None \<Rightarrow> (case handler s of (s', goes_on) \<Rightarrow> if goes_on then main_loop_old fail_fast finish handler rs s' else (s', True)))"
| "main_loop_old fail_fast finish handler (Malformed_data # rs) s =
     (if fail_fast then (s, True) else main_loop_old fail_fast finish handler rs s)"
| "main_loop_old fail_fast finish handler (Read_exception # rs) s = (s, True)"

lemma main_loop_skips_malformed:
  "main_loop finish handler rs s = main_loop finish handler (filter (\<lambda>r. r \<noteq> Malformed_data) rs) s"
  by (induction finish handler rs s rule: main_loop.induct) (auto split: option.splits prod.splits)

lemma main_loop_is_old: "main_loop finish handler rs s = main_loop_old False finish handler rs s"
  by (induction finish handler rs s rule: main_loop.induct) (auto split: option.splits prod.splits)

section \<open>Configuration\<close>

definition linuxAuditSocket :: string where
  "linuxAuditSocket = ''/var/run/iot_events''"

definition SERVER_PATH :: string where
  "SERVER_PATH = ''/var/run/iot_events''"

text \<open>
  Whether local endpoints are left to the kernel module: the value after the call, on the one
  before. The patch removes the condition and the call that sets it for network records.
\<close>

definition setHandleKMRecordsFlag :: "bool \<Rightarrow> bool \<Rightarrow> bool \<Rightarrow> bool \<Rightarrow> bool" where
  "setHandleKMRecordsFlag specified isLiveAudit valueOfHandleKMRecords flag = valueOfHandleKMRecords"

definition setHandleKMRecordsFlag_old :: "bool \<Rightarrow> bool \<Rightarrow> bool \<Rightarrow> bool \<Rightarrow> bool" where
  "setHandleKMRecordsFlag_old specified isLiveAudit valueOfHandleKMRecords flag =
     (if \<not> specified \<and> \<not> isLiveAudit then valueOfHandleKMRecords else flag)"

section \<open>Routing of network system calls\<close>

text \<open>The handlers that the changed lines call.\<close>

datatype handler_call =
    HandleIOEvent SYSCALL bool
  | HandleSocket SYSCALL
  | HandleBind SYSCALL
  | HandleAccept SYSCALL
  | HandleConnect SYSCALL
  | HandleBindKernelModule SYSCALL
  | HandleAcceptKernelModule SYSCALL
  | HandleConnectKernelModule SYSCALL
  | HandleNetworkIOKernelModule SYSCALL bool

text \<open>
  The network cases of the switch over the system call of an audit record: the calls it makes,
  None for a system call whose case the patch does not touch.
\<close>

definition network_case :: "SYSCALL \<Rightarrow> handler_call list option" where
  "network_case syscall =
     (case syscall of
        SENDMSG \<Rightarrow> Some [HandleIOEvent syscall False]
      | SENDTO \<Rightarrow> Some [HandleIOEvent syscall False]
      | RECVFROM \<Rightarrow> Some [HandleIOEvent syscall True]
      | RECVMSG \<Rightarrow> Some [HandleIOEvent syscall True]
      | SOCKET \<Rightarrow> Some [HandleSocket syscall]
      | BIND \<Rightarrow> Some [HandleBind syscall]
      | ACCEPT4 \<Rightarrow> Some [HandleAccept syscall]
      | ACCEPT \<Rightarrow> Some [HandleAccept syscall]
      | CONNECT \<Rightarrow> Some [HandleConnect syscall]
      | _ \<Rightarrow> None)"

definition network_case_old :: "bool \<Rightarrow> SYSCALL \<Rightarrow> handler_call list option" where
  "network_case_old isHandleLocalEndpoints syscall =
     (case syscall of
        SENDMSG \<Rightarrow> Some (if \<not> isHandleLocalEndpoints then [HandleIOEvent syscall False] else [])
      | SENDTO \<Rightarrow> Some (if \<not> isHandleLocalEndpoints then [HandleIOEvent syscall False] else [])
      | RECVFROM \<Rightarrow> Some (if \<not> isHandleLocalEndpoints then [HandleIOEvent syscall True] else [])
      | RECVMSG \<Rightarrow> Some (if \<not> isHandleLocalEndpoints then [HandleIOEvent syscall True] else [])
      | SOCKET \<Rightarrow> Some (if \<not> isHandleLocalEndpoints then [HandleSocket syscall] else [])
      | BIND \<Rightarrow> Some (if \<not> isHandleLocalEndpoints then [HandleBind syscall] else [])
      | ACCEPT4 \<Rightarrow> Some (if \<not> isHandleLocalEndpoints then [HandleAccept syscall] else [])
      | ACCEPT \<Rightarrow> Some (if \<not> isHandleLocalEndpoints then [HandleAccept syscall] else [])
      | CONNECT \<Rightarrow> Some (if \<not> isHandleLocalEndpoints then [HandleConnect syscall] else [])
      | _ \<Rightarrow> None)"

text \<open>The switch over the system call of a record of the kernel module, as far as the patch shows it.\<close>

definition kernel_module_case :: "SYSCALL \<Rightarrow> handler_call list option" where
  "kernel_module_case syscall =
     (case syscall of
        BIND \<Rightarrow> Some [HandleBind syscall]
      | ACCEPT \<Rightarrow> Some [HandleAccept syscall]
      | ACCEPT4 \<Rightarrow> Some [HandleAccept syscall]
      | CONNECT \<Rightarrow> Some [HandleConnect syscall]
      | SENDMSG \<Rightarrow> Some [HandleNetworkIOKernelModule syscall False]
      | SENDTO \<Rightarrow> Some [HandleNetworkIOKernelModule syscall False]
      | RECVMSG \<Rightarrow> Some [HandleNetworkIOKernelModule syscall True]
      | RECVFROM \<Rightarrow> Some [HandleNetworkIOKernelModule syscall True]
      | _ \<Rightarrow> None)"

definition kernel_module_case_old :: "SYSCALL \<Rightarrow> handler_call list option" where
  "kernel_module_case_old syscall =
     (case syscall of
        BIND \<Rightarrow> Some [HandleBindKernelModule syscall]
      | ACCEPT \<Rightarrow> Some [HandleAcceptKernelModule syscall]
      | ACCEPT4 \<Rightarrow> Some [HandleAcceptKernelModule syscall]
      | CONNECT \<Rightarrow> Some [HandleConnectKernelModule syscall]
      | SENDMSG \<Rightarrow> Some [HandleNetworkIOKernelModule syscall False]
      | SENDTO \<Rightarrow> Some [HandleNetworkIOKernelModule syscall False]
      | RECVMSG \<Rightarrow> Some [HandleNetworkIOKernelModule syscall True]
      | RECVFROM \<Rightarrow> Some [HandleNetworkIOKernelModule syscall True]
      | _ \<Rightarrow> None)"

lemma network_case_is_old: "network_case syscall = network_case_old False syscall"
  by (simp add: network_case_def network_case_old_def)

text \<open>With local endpoints handled by the kernel module, the old reporter dropped these records.\<close>

lemma network_case_old_drops: "network_case syscall \<noteq> None \<longleftrightarrow> network_case_old True syscall = Some []"
  by (cases syscall) (simp_all add: network_case_def network_case_old_def)

text \<open>
  For connections the record of the kernel module takes the same way as the audit record, so
  that its own addresses are not looked at.
\<close>

lemma kernel_module_connections:
  "syscall \<in> {BIND, ACCEPT, ACCEPT4, CONNECT} \<Longrightarrow> kernel_module_case syscall = network_case syscall"
  by (auto simp: kernel_module_case_def network_case_def)

text \<open>The network system calls of the device by their numbers.\<close>

definition network_numbers :: "int list" where
  "network_numbers = [198, 200, 202, 203, 206, 207, 211, 212, 242]"

lemma network_names: "list_all (\<lambda>(n, c). network_case c \<noteq> None \<longleftrightarrow> n \<in> set network_numbers) arm_cases"
  by (simp add: arm_cases_def network_case_def network_numbers_def)

lemma network_numbers_known: "list_all (\<lambda>n. map_of arm_cases n \<noteq> None) network_numbers"
  by (simp add: arm_cases_def network_numbers_def)

section \<open>Properties\<close>

text \<open>
  A malformed record does not stop the reporter. The patched loop gives for every sequence of
  readings what it gives without the malformed ones, which is what the loop before the patch
  gives when it does not fail fast; a loop that fails fast ends at the first malformed record.
\<close>

theorem malformed_records_are_skipped:
  "main_loop finish handler rs s = main_loop finish handler (filter (\<lambda>r. r \<noteq> Malformed_data) rs) s \<and>
   main_loop finish handler rs s = main_loop_old False finish handler rs s \<and>
   snd (main_loop_old True finish handler (rs @ Malformed_data # qs) s)"
proof -
  have "snd (main_loop_old True finish handler (rs @ Malformed_data # qs) s)"
    by (induction finish handler rs s rule: main_loop.induct) (auto split: option.splits prod.splits)
  then show ?thesis by (intro conjI main_loop_skips_malformed main_loop_is_old)
qed


end
