(* ===== verification/Boot_Layout.thy ===== *)
theory Boot_Layout
  imports Tee_Prelude
begin

text \<open>
  \<^verbatim>\<open>src/qemu/linux/show_memory_layout_on_boot.patch\<close>, which prints the kernel's memory segments at
  boot: each macro gives the bounds of a segment and its size in the unit of the line, and three
  calls of \<^verbatim>\<open>pr_notice\<close> print them. \<^verbatim>\<open>unsigned long\<close> is 64 bits wide on this architecture; the
  difference of the section symbols, which are arrays, is a signed number. Addresses and
  configuration are fields of a record; a call of \<^verbatim>\<open>pr_notice\<close> is its format and its arguments.
\<close>

definition MLK :: "u64 \<Rightarrow> u64 \<Rightarrow> u64 \<times> u64 \<times> u64" where
  "MLK b t = (b, t, drop_bit 10 (t - b))"

definition MLM :: "u64 \<Rightarrow> u64 \<Rightarrow> u64 \<times> u64 \<times> u64" where
  "MLM b t = (b, t, drop_bit 20 (t - b))"

definition MLG :: "u64 \<Rightarrow> u64 \<Rightarrow> u64 \<times> u64 \<times> u64" where
  "MLG b t = (b, t, drop_bit 30 (t - b))"

text \<open>C's \<^verbatim>\<open>/\<close> truncates towards zero.\<close>

definition DIV_ROUND_UP :: "int \<Rightarrow> int \<Rightarrow> int" where
  "DIV_ROUND_UP n d = (n + d - 1) sdiv d"

definition MLK_ROUNDUP :: "int \<Rightarrow> int \<Rightarrow> int \<times> int \<times> int" where
  "MLK_ROUNDUP b t = (b, t, DIV_ROUND_UP (t - b) 1024)"

text \<open>The printed size, in whole units: rounded down for the word macros, up for the section macro.\<close>

lemma shifted_size:
  fixes b t :: u64
  assumes "b \<le> t"
  shows "unat (drop_bit n (t - b)) = (unat t - unat b) div 2 ^ n"
proof -
  have "unat (drop_bit n (t - b)) = drop_bit n (unat t - unat b)"
    by (simp only: unat_drop_bit_eq unat_sub [OF assms])
  then show ?thesis by (simp only: drop_bit_eq_div)
qed

lemma layout_sizes_round_down:
  fixes b t :: u64
  assumes "b \<le> t"
  shows "unat (snd (snd (MLK b t))) = (unat t - unat b) div 1024"
    and "unat (snd (snd (MLM b t))) = (unat t - unat b) div 1048576"
    and "unat (snd (snd (MLG b t))) = (unat t - unat b) div 1073741824"
  using shifted_size [OF assms, of 10] shifted_size [OF assms, of 20] shifted_size [OF assms, of 30]
  by (simp_all add: MLK_def MLM_def MLG_def)

lemma section_size_covers:
  assumes "b \<le> t"
  shows "t - b \<le> 1024 * snd (snd (MLK_ROUNDUP b t))" and "1024 * snd (snd (MLK_ROUNDUP b t)) < t - b + 1024"
proof -
  have "DIV_ROUND_UP (t - b) 1024 = (t - b + 1023) div 1024"
    using assms by (simp add: DIV_ROUND_UP_def signed_divide_int_def sgn_if)
  then show "t - b \<le> 1024 * snd (snd (MLK_ROUNDUP b t))" and "1024 * snd (snd (MLK_ROUNDUP b t)) < t - b + 1024"
    by (simp_all add: MLK_ROUNDUP_def)
qed

section \<open>The notices\<close>

record boot_env =
  CONFIG_KASAN :: bool
  CONFIG_SPARSEMEM_VMEMMAP :: bool
  KASAN_SHADOW_START :: u64
  KASAN_SHADOW_END :: u64
  VMALLOC_START :: u64
  VMALLOC_END :: u64
  VMEMMAP_START :: u64
  VMEMMAP_SIZE :: u64
  virt_to_page :: "u64 \<Rightarrow> u64"
  PAGE_OFFSET :: u64
  high_memory :: u64
  FIXADDR_START :: u64
  FIXADDR_TOP :: u64
  PCI_IO_START :: u64
  PCI_IO_END :: u64
  MODULES_VADDR :: u64
  MODULES_END :: u64
  init_begin :: u64
  init_end :: u64
  text_begin :: u64
  stext :: u64
  etext :: u64
  sdata :: u64
  edata :: u64
  virt_to_phys :: "u64 \<Rightarrow> u64"

text \<open>An argument with its C type.\<close>

datatype karg = Unsigned_long u64 | Long int | Char_pointer u64

definition ulong_args :: "u64 \<times> u64 \<times> u64 \<Rightarrow> karg list" where
  "ulong_args r = (case r of (b, t, n) \<Rightarrow> [Unsigned_long b, Unsigned_long t, Unsigned_long n])"

definition section_args :: "u64 \<Rightarrow> u64 \<Rightarrow> karg list" where
  "section_args b t = [Char_pointer b, Char_pointer t, Long (snd (snd (MLK_ROUNDUP (uint b) (uint t))))]"

definition layout_format :: "boot_env \<Rightarrow> string" where
  "layout_format B =
     ''Virtual kernel memory layout:'' @ [LF] @
     (if CONFIG_KASAN B then ''    kasan   : 0x%16lx - 0x%16lx   (%6ld GB)'' @ [LF] else []) @
     ''    vmalloc : 0x%16lx - 0x%16lx   (%6ld GB)'' @ [LF] @
     (if CONFIG_SPARSEMEM_VMEMMAP B then
        ''    vmemmap : 0x%16lx - 0x%16lx   (%6ld GB maximum)'' @ [LF] @
        ''              0x%16lx - 0x%16lx   (%6ld MB actual)'' @ [LF]
      else []) @
     ''    fixed   : 0x%16lx - 0x%16lx   (%6ld KB)'' @ [LF] @
     ''    PCI I/O : 0x%16lx - 0x%16lx   (%6ld MB)'' @ [LF] @
     ''    modules : 0x%16lx - 0x%16lx   (%6ld MB)'' @ [LF] @
     ''    memory  : 0x%16lx - 0x%16lx   (%6ld MB)'' @ [LF] @
     ''      .init : 0x%px - 0x%px   (%6ld KB)'' @ [LF] @
     ''      .text : 0x%px - 0x%px   (%6ld KB)'' @ [LF] @
     ''      .data : 0x%px - 0x%px   (%6ld KB)'' @ [LF]"

definition layout_args :: "boot_env \<Rightarrow> karg list" where
  "layout_args B =
     (if CONFIG_KASAN B then ulong_args (MLG (KASAN_SHADOW_START B) (KASAN_SHADOW_END B)) else []) @
     ulong_args (MLG (VMALLOC_START B) (VMALLOC_END B)) @
     (if CONFIG_SPARSEMEM_VMEMMAP B then
        ulong_args (MLG (VMEMMAP_START B) (VMEMMAP_START B + VMEMMAP_SIZE B)) @
        ulong_args (MLM (virt_to_page B (PAGE_OFFSET B)) (virt_to_page B (high_memory B)))
      else []) @
     ulong_args (MLK (FIXADDR_START B) (FIXADDR_TOP B)) @
     ulong_args (MLM (PCI_IO_START B) (PCI_IO_END B)) @
     ulong_args (MLM (MODULES_VADDR B) (MODULES_END B)) @
     ulong_args (MLM (PAGE_OFFSET B) (high_memory B)) @
     section_args (init_begin B) (init_end B) @
     section_args (text_begin B) (etext B) @
     section_args (sdata B) (edata B)"

definition boot_notices :: "boot_env \<Rightarrow> (string \<times> karg list) list" where
  "boot_notices B =
     [(layout_format B, layout_args B),
      (''.text segment va (0x%lx)-(0x%lx)'' @ [LF], [Char_pointer (stext B), Char_pointer (etext B)]),
      (''.text segment pa (0x%lx)-(0x%lx)'' @ [LF],
       [Unsigned_long (virt_to_phys B (stext B)), Unsigned_long (virt_to_phys B (etext B))])]"

section \<open>Formats and arguments\<close>

text \<open>The conversions of a format: None for one that the notices do not use.\<close>

datatype conv = Conv_lx | Conv_ld | Conv_px

definition decimal_digit :: "char \<Rightarrow> bool" where
  "decimal_digit c \<longleftrightarrow> c \<in> set ''0123456789''"

fun conv_of :: "string \<Rightarrow> conv option" where
  "conv_of (c # d # r) =
     (if [c, d] = ''lx'' then Some Conv_lx else if [c, d] = ''ld'' then Some Conv_ld
      else if [c, d] = ''px'' then Some Conv_px else None)"
| "conv_of r = None"

fun conversions :: "string \<Rightarrow> conv option list" where
  "conversions [] = []"
| "conversions (c # r) = (if c = CHR ''%'' then [conv_of (dropWhile decimal_digit r)] else []) @ conversions r"

text \<open>
  An argument that its conversion prints correctly: the type fits, and an unsigned number that
  is printed as a signed one is not above the signed range.
\<close>

fun prints :: "conv option \<Rightarrow> karg \<Rightarrow> bool" where
  "prints (Some Conv_lx) (Unsigned_long w) = True"
| "prints (Some Conv_ld) (Unsigned_long w) = (unat w < 2 ^ 63)"
| "prints (Some Conv_ld) (Long i) = (- (2 ^ 63) \<le> i \<and> i < 2 ^ 63)"
| "prints (Some Conv_px) (Char_pointer p) = True"
| "prints _ _ = False"

text \<open>The conversions of the layout: one row per line, three numbers per row.\<close>

lemma layout_conversions:
  "conversions (layout_format B) =
    map Some (concat (replicate (5 + (if CONFIG_KASAN B then 1 else 0) + (if CONFIG_SPARSEMEM_VMEMMAP B then 2 else 0))
        [Conv_lx, Conv_lx, Conv_ld]) @ concat (replicate 3 [Conv_px, Conv_px, Conv_ld]))"
  by (cases "CONFIG_KASAN B"; cases "CONFIG_SPARSEMEM_VMEMMAP B")
     (simp_all add: layout_format_def decimal_digit_def numeral_eq_Suc)

lemma shifted_prints: "10 \<le> n \<Longrightarrow> unat (drop_bit n (w :: u64)) < 2 ^ 63"
proof -
  assume "10 \<le> n"
  have "unat (drop_bit n w) = drop_bit n (unat w)" by (rule unat_drop_bit_eq)
  also have "\<dots> = unat w div 2 ^ n" by (rule drop_bit_eq_div)
  also have "\<dots> \<le> unat w div 2 ^ 10" using \<open>10 \<le> n\<close> power_increasing [of 10 n "2 :: nat"]
    by (intro div_le_mono2) simp_all
  also have "\<dots> < 2 ^ 63" using unsigned_less [of w, where ?'a = nat] by (simp add: div_less_iff_less_mult)
  finally show ?thesis .
qed

lemma row_prints:
  "list_all2 prints (map Some [Conv_lx, Conv_lx, Conv_ld]) (ulong_args (MLK b t))"
  "list_all2 prints (map Some [Conv_lx, Conv_lx, Conv_ld]) (ulong_args (MLM b t))"
  "list_all2 prints (map Some [Conv_lx, Conv_lx, Conv_ld]) (ulong_args (MLG b t))"
  using shifted_prints [of 10 "t - b"] shifted_prints [of 20 "t - b"] shifted_prints [of 30 "t - b"]
  by (simp_all add: ulong_args_def MLK_def MLM_def MLG_def)

lemma section_prints: "list_all2 prints (map Some [Conv_px, Conv_px, Conv_ld]) (section_args b t)"
proof -
  have "0 \<le> uint t" "0 \<le> uint b" "uint t < 2 ^ 64" "uint b < 2 ^ 64"
    using uint_lt2p [of t] uint_lt2p [of b] by simp_all
  then have "\<bar>uint t - uint b\<bar> < 2 ^ 64" by linarith
  then have "- (2 ^ 63) \<le> (uint t - uint b + 1023) sdiv 1024 \<and> (uint t - uint b + 1023) sdiv 1024 < 2 ^ 63"
    by (simp add: signed_divide_int_def sgn_if) linarith
  then show ?thesis by (simp add: section_args_def MLK_ROUNDUP_def DIV_ROUND_UP_def add.commute)
qed

section \<open>Properties\<close>

text \<open>
  C39: the boot notices print what they are given. For every configuration and every layout, the
  conversions of the layout's format and of the line with the physical addresses agree with
  the arguments in number and type, and every size printed as a signed number is in range;
  the line with the virtual addresses passes pointers for conversions of \<^verbatim>\<open>unsigned long\<close>.
\<close>

theorem boot_notices_agree_with_formats:
  "map (\<lambda>(f, as). list_all2 prints (conversions f) as) (boot_notices B) = [True, False, True]"
proof -
  let ?u = "map Some [Conv_lx, Conv_lx, Conv_ld]" and ?s = "map Some [Conv_px, Conv_px, Conv_ld]"
  have "conversions (layout_format B) =
      (if CONFIG_KASAN B then ?u else []) @ ?u @ (if CONFIG_SPARSEMEM_VMEMMAP B then ?u @ ?u else []) @
      ?u @ ?u @ ?u @ ?u @ ?s @ ?s @ ?s"
    by (simp add: layout_conversions numeral_eq_Suc)
  then have "list_all2 prints (conversions (layout_format B)) (layout_args B)"
    by (auto simp only: layout_args_def if_True if_False list_all2_Nil append_Nil split: if_split
        intro!: list_all2_appendI row_prints section_prints)
  then show ?thesis
    by (simp add: boot_notices_def decimal_digit_def)
qed

end
