(* ===== verification/Spec2Isabelle.thy ===== *)
theory Spec2Isabelle
  imports Audit_Interleaved Audit_Race Host_Apps Pta_Introspection Pta_Watchdog Receiver_Threads Spade_Reporter
    Boot_Layout
begin

text \<open>
  A verification development of TEE-PA, which carries audit records of a Linux kernel through
  a trusted execution environment (OP-TEE) to a log receiver, so that a compromised normal
  world cannot suppress them, and which lets a trusted application report a digest of the
  kernel text.

  \<^bold>\<open>The program.\<close>
  \<^item> The kernel patch \<^verbatim>\<open>src/qemu/linux/audit_qemu.patch\<close> copies every audit record into a ring
    buffer (\<^verbatim>\<open>audit_log_end\<close>, \<^verbatim>\<open>enqueue\<close>); when 500 records wait, the audit thread joins records
    into one message and hands it to TA-Collect through the TEE driver
    (\<^verbatim>\<open>send_eventlog_ta_collect\<close>, \<^verbatim>\<open>ta_create_session\<close>, \<^verbatim>\<open>ta_invoke\<close>). The driver's headers
    \<^verbatim>\<open>optee_msg.h\<close> and \<^verbatim>\<open>optee_private.h\<close> are copied next to it.
  \<^item> TA-Collect, \<^verbatim>\<open>src/qemu/optee_examples/collect/ta\<close>, sends each message over a TCP connection
    of its own to the receiver.
  \<^item> The kernel integrity TA, \<^verbatim>\<open>src/qemu/optee_examples/kernel_integrity/ta\<close>, asks the memory
    introspection pseudo TA, \<^verbatim>\<open>src/qemu/pta/memory_introspection.c\<close>, for a digest and sends it to
    the receiver. The watchdog pseudo TA, \<^verbatim>\<open>src/qemu/pta/watchdogtimer.c\<close>, starts a hardware
    watchdog. Three host programs drive them.
  \<^item> The log receiver, \<^verbatim>\<open>src/Log_Receiver/src\<close>, rewrites the records that arrive into the form
    SPADE reads, saves them to a file, forwards them over a Unix socket, and supervises the
    devices: it runs a command on each of them over SSH and expects the record of that command
    in time (\<^verbatim>\<open>tcp_server.py\<close>, \<^verbatim>\<open>unix_server.py\<close>, \<^verbatim>\<open>main.py\<close>). The SPADE patch gives the reporter a
    table of the devices' system calls, and lets it handle network calls without its own kernel
    module. A second kernel patch prints the memory layout at boot.

  \<^bold>\<open>The theories.\<close>
  \<^item> \<^verbatim>\<open>Tee_Prelude\<close>: machine integers, C memory objects as byte lists with the C string
    functions, undefined behaviour as error values, shared lemmas.
  \<^item> \<^verbatim>\<open>Bounded_Fifo\<close>: the bounded queue as a list, and the interface \<^verbatim>\<open>bounded_fifo\<close> with the
    simulation of every run by the list.
  \<^item> \<^verbatim>\<open>Audit_Queue\<close>: the ring buffer; \<^verbatim>\<open>ring_inv\<close> and \<^verbatim>\<open>items\<close> are its invariant and contents.
  \<^item> \<^verbatim>\<open>Audit_Race\<close>: \<^verbatim>\<open>enqueue\<close> and \<^verbatim>\<open>dequeue\<close> in steps, and two callers at once.
  \<^item> \<^verbatim>\<open>C_Preprocessor\<close>: header text as a list of directives and declarations, its processing
    with redefinition errors, include guards as an interface, structure layout.
  \<^item> \<^verbatim>\<open>Optee_Msg\<close>, \<^verbatim>\<open>Optee_Private\<close>: the two headers line by line, their macros and structures,
    and the inline functions.
  \<^item> \<^verbatim>\<open>Audit_Sender\<close>: the kernel's sender, its specification \<^verbatim>\<open>batch\<close> on lists, and the
    transition system of loggers and audit thread with its invariant \<^verbatim>\<open>kinv\<close>, in which a pass
    of the audit thread is one step. \<^verbatim>\<open>Audit_Interleaved\<close>: the same pass in steps, with loggers at
    work between them, its invariant \<^verbatim>\<open>iinv\<close>, and the equality of the two when undisturbed.
  \<^item> \<^verbatim>\<open>Gp_Api\<close>: the TEE Internal API as an environment and a trace, and the contract
    \<^verbatim>\<open>event_log_sender\<close> of the senders in both TAs; \<^verbatim>\<open>Core_Api\<close>: the OP-TEE core, devices and
    message digests as environments, and the contract \<^verbatim>\<open>address_translation\<close>.
  \<^item> \<^verbatim>\<open>Ta_Collect\<close>, \<^verbatim>\<open>Ta_Kernel_Integrity\<close>, \<^verbatim>\<open>Pta_Introspection\<close>, \<^verbatim>\<open>Pta_Watchdog\<close>: the trusted
    applications, one definition per C function, with the source's names.
  \<^item> \<^verbatim>\<open>Host_Apps\<close>: the three host programs as instances of one specification.
  \<^item> \<^verbatim>\<open>Py_Text\<close>: Python strings as code points, the UTF-8 codec, the string methods the receiver
    uses, bounded deques. \<^verbatim>\<open>Window_Buffer\<close>: the contract \<^verbatim>\<open>window_buffer\<close> of a buffer that keeps
    the newest elements, with what a whole run takes out of it.
  \<^item> \<^verbatim>\<open>Log_Receiver\<close>: the receiver's two servers and their timers; \<^verbatim>\<open>Heartbeat\<close>: the supervision
    of devices; \<^verbatim>\<open>Receiver_System\<close>: all its threads as steps of one system, the well-formedness
    \<^verbatim>\<open>receiver_wf\<close>, and the three deques as instances of \<^verbatim>\<open>window_buffer\<close>.
  \<^item> \<^verbatim>\<open>Guarded_Pop\<close>: the contract \<^verbatim>\<open>guarded_pop\<close> of threads that test the length of a queue and take
    from it later, and how many of them the test protects. \<^verbatim>\<open>Receiver_Threads\<close>: the receiver's
    threads statement by statement, scheduled freely, with its three loops as instances of the
    contract.
  \<^item> \<^verbatim>\<open>Spade_Syscalls\<close>: the system call table of the SPADE patch; \<^verbatim>\<open>Spade_Reporter\<close>: the
    reporter's event loop and the routing of network system calls, before and after the patch.
    \<^verbatim>\<open>Boot_Layout\<close>: the size arithmetic and the notices of
    \<^verbatim>\<open>show_memory_layout_on_boot.patch\<close>, with their formats and arguments.
  \<^item> This theory: the compositions kernel to TA-Collect to network to receiver to SPADE, and
    pseudo TA to kernel integrity TA to network, and the agreement of the names the parts share.

  \<^bold>\<open>Conventions.\<close> A C function is a function on an explicit state record. An access outside an
  object, a NULL dereference and the use of an indeterminate value are \<^verbatim>\<open>Inl\<close> results, so a
  theorem that a call returns \<^verbatim>\<open>Inr\<close> says that it is memory safe. Code that is not in the
  repository (the TEE driver, the Internal API, mbed TLS, the client library) is a record of
  functions of the calls made so far; theorems hold for all of them, or name the documented
  behaviour they need. Integers whose width matters are words; the ring indices are integers
  with a proof that they stay in the range of \<^verbatim>\<open>int\<close>. All loops are total functions, the
  sender's loop by the number of waiting records, and with loggers at work by the length of the
  message; the receiver's loops over a deque are
  \<^verbatim>\<open>while_option\<close> loops with a theorem that they end; no fuel is used. A Python exception that
  is caught nowhere is the outcome \<^verbatim>\<open>Raised\<close> with the state it leaves behind; the endless loops of
  the receiver's threads are sequences of rounds.

  \<^bold>\<open>What is shown.\<close> The ring buffer is a bounded FIFO queue for records below 1024 characters;
  whatever the interleaving, driver and network do, also when records are logged while a message
  is being put together, the receiver gets a subsequence of the accepted records, whole and in
  order, and with a driver that serves every message all of them but at most one per message, up
  to SPADE; the sender's buffers are not overrun, and a pass of the audit thread ends; TA-Collect
  forwards messages exactly; the digest text decodes to the digest; the register protocol of
  the watchdog; the layout and self-consistency of the driver headers; the audit thread works
  off its backlog; the receiver's operations end and keep its state well-formed, and SPADE
  gets a subsequence of the kernel's records in their rewritten form; unanswered devices are
  dropped in the end and answered ones are kept; the receiver's threads do what its operations
  do, and take from no empty deque while there are at most eleven connections; every system call of the table has one
  number, network calls reach exactly their handlers, and a malformed record does not stop the
  reporter; the boot notices print arguments that fit their formats, but for the line with
  virtual addresses. Where the code loses
  records, leaks resources or leaves its buffers, the theorem that says when is in the same
  theory: a long record overruns its slot, the last record of a drained ring and every record
  of a refused message are lost, concurrent callers can overwrite each other's
  record, contexts, shared memory and sockets leak, the digest command does not check its
  buffer and the 64-byte buffer of the host program lacks a terminator; the receiver does not
  put a divided record together again, cuts a record at its first comma, overwrites its log
  file, holds back thirty records, accepts one device's record as another one's heartbeat,
  stops supervising when a device cannot be reached, supervises a device twice when it connects
  again at the wrong moment, gathers threads with every connection until one of them can fail,
  and drops a healthy device that logs too little.

  \<^bold>\<open>What is not modelled.\<close> Trace output and its formatting, except lines that carry a result;
  the unpatched parts of the kernel's audit system; preemption inside a call of \<^verbatim>\<open>enqueue\<close> or
  \<^verbatim>\<open>dequeue\<close> while the sender runs (\<^verbatim>\<open>Audit_Race\<close> shows what such calls do to each other, with the
  increment and the decrement as one step each), and loggers at work during the driver calls of
  one step of the sender; in the receiver, interleaving inside a statement that touches shared
  data, inside the loop that marks tasks and inside the body of the loop of \<^verbatim>\<open>check_expire\<close>, and
  the log messages;
  the hunks of the SPADE patch that add log output or change a few lines of methods whose text
  is not in the repository (the window in which the bridge reorders events, the argument
  conversion and early returns around the switch), its generated files, and the configuration
  values other than the socket path; the build and container files.
\<close>

section \<open>The names the parts share\<close>

text \<open>A UUID as the octets that \<^verbatim>\<open>export_uuid\<close> and the TEE exchange, most significant first.\<close>

definition uuid_octets :: "TEE_UUID \<Rightarrow> u8 list" where
  "uuid_octets u = (case u of (a, b, c, ds) \<Rightarrow>
     [ucast (drop_bit 24 a), ucast (drop_bit 16 a), ucast (drop_bit 8 a), ucast a,
      ucast (drop_bit 8 b), ucast b, ucast (drop_bit 8 c), ucast c] @ ds)"

section \<open>Kernel, TA-Collect and the network\<close>

text \<open>
  TA-Collect serves the messages of a kernel trace: it is invoked with the data of each
  message in turn, and the kernel took a message as accepted exactly when the TA returned
  \<^verbatim>\<open>TEE_SUCCESS\<close>.
\<close>

definition served_by :: "tee_env \<Rightarrow> kcall list \<Rightarrow> ta_state \<Rightarrow> bool" where
  "served_by E t ts \<longleftrightarrow>
     (\<exists>rs. send_all E (map (\<lambda>(f, d, ok). d) (handed t)) ta_init = Inr (rs, ts) \<and>
        map (\<lambda>r. r = TEE_SUCCESS) rs = map (\<lambda>(f, d, ok). ok) (handed t))"

lemma filter_zip_verdicts:
  assumes "map (\<lambda>r. r = TEE_SUCCESS) rs = map (\<lambda>(f, d, ok). ok) hs"
  shows "map fst (filter (\<lambda>(m, r). r = TEE_SUCCESS) (zip (map (\<lambda>(f, d, ok). d) hs) rs)) =
    map (\<lambda>(f, d, ok). d) (filter (\<lambda>(f, d, ok). ok) hs)"
  using assms
proof (induction hs arbitrary: rs)
  case (Cons h hs)
  then obtain r rs' where "rs = r # rs'" by (cases rs) auto
  with Cons show ?case by (auto split: prod.splits)
qed simp

lemma served_network:
  assumes "served_by E t ts" and "allocating E" and "handed_ok K t"
  shows "network (calls ts) = messages t"
proof -
  obtain rs where rs: "send_all E (map (\<lambda>(f, d, ok). d) (handed t)) ta_init = Inr (rs, ts)"
      "map (\<lambda>r. r = TEE_SUCCESS) rs = map (\<lambda>(f, d, ok). ok) (handed t)"
    using assms(1) by (auto simp: served_by_def)
  have "\<forall>m \<in> set (map (\<lambda>(f, d, ok). d) (handed t)). length m < 2 ^ 32"
    using assms(3) by (fastforce simp: handed_ok_def)
  from send_all_outcome [OF assms(2) this, of ta_init] rs(1)
  have "network (calls ts) = map fst (filter (\<lambda>(m, r). r = TEE_SUCCESS) (zip (map (\<lambda>(f, d, ok). d) (handed t)) rs))"
    by (auto simp: ta_init_def)
  then show ?thesis by (simp add: filter_zip_verdicts [OF rs(2)] messages_handed)
qed

lemma ireach_handed: "ireach K hist pc s \<Longrightarrow> stack_ok K \<Longrightarrow> handed_ok K (kcalls s)"
  using ireach_inv by (auto simp: iinv_def)

lemma network_records:
  assumes "ireach K hist pc s" and "stack_ok K" and "served_by E (kcalls s) ts" and "allocating E"
  shows "\<exists>yss. network (calls ts) = map log_lines yss \<and> subseq (concat yss @ items (queue s)) hist"
proof -
  have "network (calls ts) = messages (kcalls s)"
    by (rule served_network [OF assms(3,4) ireach_handed [OF assms(1,2)]])
  with ireach_inv [OF assms(1,2)] in_flight_delivered show ?thesis by (fastforce simp: iinv_def)
qed

section \<open>Network, receiver and SPADE\<close>

text \<open>
  The data a run of the receiver was given, one entry for each call of \<^verbatim>\<open>recv\<close>, and the records
  without special characters: ASCII, and no character that ends a line.
\<close>

definition received_data :: "revent list \<Rightarrow> bytes list" where
  "received_data es = List.map_filter (\<lambda>e. case e of Receive bs \<Rightarrow> Some bs | _ \<Rightarrow> None) es"

definition plain_record :: "string \<Rightarrow> bool" where
  "plain_record y \<longleftrightarrow> list_all (\<lambda>c. of_char c < (128 :: nat) \<and> \<not> line_break (of_char c)) y"

lemma concat_received: "concat (map received es) = concat (map (\<lambda>bs. received (Receive bs)) (received_data es))"
proof (induction es)
  case (Cons e es)
  then show ?case by (cases e) (simp_all add: received_data_def List.map_filter_simps)
qed (simp add: received_data_def List.map_filter_simps)

lemma received_lines_of_records:
  assumes "list_all plain_record ys"
  shows "received (Receive (str (log_lines ys))) = List.map_filter translate_audit_log (map str ys)"
proof -
  have ascii: "list_all (\<lambda>b. b < 128) (str (log_lines ys))"
    using assms by (induction ys) (auto simp: plain_record_def str_def list_all_iff)
  have "splitlines (str (log_lines ys)) = map str ys"
    using assms
  proof (induction ys)
    case (Cons y ys)
    have "one_line (str y)" using Cons.prems by (auto simp: plain_record_def str_def list_all_iff)
    with Cons show ?case by (simp add: splitlines_line)
  qed simp
  then show ?thesis by (simp add: utf8_decode_ascii [OF ascii] records_of_def)
qed

lemma map_filter_concat: "List.map_filter f (concat xss) = concat (map (List.map_filter f) xss)"
  by (induction xss) (simp_all add: List.map_filter_def)

lemma subseq_map_filter: "subseq xs ys \<Longrightarrow> subseq (List.map_filter f xs) (List.map_filter f ys)"
  unfolding List.map_filter_def by (intro subseq_map subseq_filter)

lemma received_network_records:
  assumes "received_data es = map str (map log_lines yss)" and "list_all plain_record (concat yss)"
  shows "concat (map received es) = List.map_filter translate_audit_log (map str (concat yss))"
proof -
  have "list_all plain_record ys" if "ys \<in> set yss" for ys using that assms(2) by (auto simp: list_all_iff)
  then have "map (\<lambda>bs. received (Receive bs)) (map str (map log_lines yss)) =
      map (\<lambda>ys. List.map_filter translate_audit_log (map str ys)) yss"
    by (simp add: received_lines_of_records del: received.simps)
  then show ?thesis
    unfolding concat_received assms(1) by (simp only: map_concat map_filter_concat) (simp add: o_def)
qed

text \<open>How many records a subsequence lacks bounds how many of a kind it lacks.\<close>

lemma map_filter_length: "length (List.map_filter f xs) \<le> length xs"
  by (simp add: List.map_filter_def)

lemma map_filter_lacks:
  "subseq xs ys \<Longrightarrow> length (List.map_filter f ys) + length xs \<le> length (List.map_filter f xs) + length ys"
  by (induction rule: list_emb.induct) (auto simp: List.map_filter_simps map_filter_length split: option.splits)

section \<open>Kernel integrity TA and memory introspection pseudo TA\<close>

text \<open>The environment of the kernel integrity TA in which the pseudo TA's own code answers the session.\<close>

definition with_pta :: "core_env \<Rightarrow> 'c md_env \<Rightarrow> tee_env \<Rightarrow> tee_env" where
  "with_pta C M E = E\<lparr>session_invoke := (\<lambda>t sess cmd ty ps.
     case Pta_Introspection.invoke_command C E M cmd ty ps [] of
       Inl e \<Rightarrow> Inl e
     | Inr (r, ps', _) \<Rightarrow> Inr (r, ps'))\<rparr>"

lemma with_pta_simps [simp]:
  "hash_types (with_pta C M E) = hash_types E" "session_open (with_pta C M E) = session_open E"
  by (simp_all add: with_pta_def hash_types_def)

text \<open>The pseudo TA's answer to the TA: the digits of the digest in the first 64 bytes.\<close>

lemma pta_answers:
  assumes "sha256_provider M H" and "memref_buffer (ps 1) = Some b" and "64 \<le> length b"
    and "session_open E (calls s) Ta_Kernel_Integrity.PTA_MEMORY_INTROSPECTION_UUID = (TEE_SUCCESS, sess)"
  shows "answers_with (with_pta C M E) s sess ps TEE_SUCCESS
    (ps(1 := (ps 1)\<lparr>memref_buffer := Some (hex_of (H test_payload) @ drop 64 b)\<rparr>))"
proof -
  have "length (hex_of (H test_payload)) = 64" using assms(1) by (simp add: sha256_provider_def)
  then have "memcpy b (hex_of (H test_payload) @ [NUL]) 64 = Inr (hex_of (H test_payload) @ drop 64 b)"
    using assms(3) by (simp add: memcpy_def)
  then show ?thesis
    using assms(2,4)
    by (simp add: answers_with_def with_pta_def hash_types_def PTA_CMD_GET_DEVICES_SUPP_def
        Pta_Introspection.invoke_command_def PTA_CMD_GET_ADDRESS_def PTA_CMD_GET_HASH_def
        communication_test_ta_to_pta_def hash_hex_provider [OF assms(1)])
qed

section \<open>Properties across components\<close>


lemma demo_serves_calm_kernel:
  assumes "kreach calm_kenv hist s"
  obtains ts where "served_by demo_env (kcalls s) ts"
proof -
  let ?ms = "map (\<lambda>(f, d, ok). d) (handed (kcalls s))"
  have h: "handed_ok calm_kenv (kcalls s)" by (rule ireach_handed [OF kreach_ireach [OF assms] calm_stack])
  have ms: "\<forall>m \<in> set ?ms. length m < 2 ^ 32" using h by (fastforce simp: handed_ok_def)
  have d: "allocating demo_env" "reliable demo_env" by (simp_all add: allocating_def reliable_def demo_env_def)
  obtain rs ts where rs: "send_all demo_env ?ms ta_init = Inr (rs, ts)" "set rs \<subseteq> {TEE_SUCCESS}"
    using send_all_reliable [OF d ms, of ta_init] by blast
  moreover have "length rs = length ?ms" using send_all_outcome [OF d(1) ms, of ta_init] rs(1) by auto
  moreover have "map (\<lambda>r. r = TEE_SUCCESS) rs = map (\<lambda>_. True) rs"
    by (rule map_cong) (use rs(2) in auto)
  moreover have "map (\<lambda>(f, d, ok). ok) (handed (kcalls s)) = map (\<lambda>_. True) (handed (kcalls s))"
    by (rule map_cong) (use h calm_driver in \<open>auto simp: handed_ok_def\<close>)
  ultimately have "map (\<lambda>r. r = TEE_SUCCESS) rs = map (\<lambda>(f, d, ok). ok) (handed (kcalls s))"
    by (simp add: map_replicate_const)
  with rs(1) show thesis by (intro that [of ts]) (auto simp: served_by_def)
qed







definition wide_params :: params where
  "wide_params = out_params 65"


text \<open>
  C37: the program that ships with the TA runs into the missing terminator. Its output array
  has 64 bytes, all of which the pseudo TA fills with digits, so the TA's \<^verbatim>\<open>strlen\<close> reads past
  the buffer for every digest.
\<close>

theorem host_digest_buffer_overreads:
  assumes "sha256_provider M H"
    and "session_open E (calls s) Ta_Kernel_Integrity.PTA_MEMORY_INTROSPECTION_UUID = (TEE_SUCCESS, sess)"
  shows "Ta_Kernel_Integrity.TA_InvokeCommandEntryPoint (with_pta C M E) TA_KERNEL_INTEGRITY_CMD_INC_VALUE
    (hash_types E) (op_params integrity_op) s = Inl Out_of_bounds_read"
proof -
  let ?ps = "op_params integrity_op"
  let ?ps' = "?ps(1 := (?ps 1)\<lparr>memref_buffer := Some (hex_of (H test_payload) @ drop 64 (replicate 64 NUL))\<rparr>)"
  have ans: "answers_with (with_pta C M E) s sess ?ps TEE_SUCCESS ?ps'"
    by (rule pta_answers) (use assms in \<open>simp_all add: integrity_op_def\<close>)
  have buf: "memref_buffer (?ps' 1) = Some (hex_of (H test_payload))" by simp
  show ?thesis
    using pta_invoke_answered [OF ans buf] strlen_unterminated [OF NUL_notin_hex_of] by simp
qed

theorem host_digest_buffer_overreads_witness:
  "Ta_Kernel_Integrity.TA_InvokeCommandEntryPoint (with_pta blank_core length_md demo_env)
     TA_KERNEL_INTEGRITY_CMD_INC_VALUE (hash_types demo_env) (op_params integrity_op) ta_init = Inl Out_of_bounds_read"
  by (rule host_digest_buffer_overreads [OF length_md_provider, where sess = 0]) (simp add: demo_env_def ta_init_def)



definition watchdog_teec :: "core_env \<Rightarrow> teec_env" where
  "watchdog_teec C = \<lparr>TEEC_InitializeContext = (\<lambda>t. TEEC_success), TEEC_OpenSession = (\<lambda>t u. TEEC_success),
     TEEC_InvokeCommand = (\<lambda>t u cmd opn.
       if fst (Pta_Watchdog.invoke_command C cmd 0 (op_params opn) []) = TEE_SUCCESS then TEEC_success
       else TEEC_failure 0)\<rparr>"

text \<open>
  The watchdog program arms the timer twice. With a client library that reaches the
  pseudo TA's own dispatch, the program ends with exit code 0, and its two commands make the
  pseudo TA write the start sequence of the watchdog twice and nothing else.
\<close>

theorem watchdog_program_arms_twice:
  "fst (watchdog_main (watchdog_teec C)) = 0 \<and>
   io_written (snd (command_run C (invoked (snd (watchdog_main (watchdog_teec C)))) [])) = wdt_start C @ wdt_start C"
proof -
  have "watchdog_main (watchdog_teec C) =
      (0, [H_init TEEC_success, H_open WDT_UUID TEEC_success,
           H_invoke 2 (TEEC_VALUE_OUTPUT, TEEC_NONE, TEEC_NONE, TEEC_NONE) TEEC_success,
           H_invoke 0 (TEEC_VALUE_INPUT, TEEC_NONE, TEEC_NONE, TEEC_NONE) TEEC_success, H_close, H_finalize])"
    by (simp add: watchdog_main_def watchdog_teec_def Pta_Watchdog.invoke_command_def Pta_Watchdog.GPIO_ON_def
        PM_START_def TEST_PSEUDO_TA_def Host_Apps.GPIO_ON_def testWDTOn_trace Let_def)
  then show ?thesis using command_run_writes [of C "[2, 0]" "[]"] by simp
qed

text \<open>A device that has connected, and has got its task in the heartbeat's round.\<close>

definition device_run :: "revent list" where
  "device_run = [Accept (str ''10.0.0.1''), Beat]"

lemma device_run_task:
  "\<exists>r. window_run (receiver_step (still_env 9)) forwarded device_run receiver_init = Some ([], r) \<and>
    executing_tasks r = [\<lparr>create_time = 9, expire_time = 180000009, ip_address = str ''10.0.0.1'',
      execute_cmd = str ''ps 0123'', heartbeat_check = False\<rparr>]"
  by (simp add: device_run_def receiver_init_def accept_client_def heartbeat_round_def register_devices.simps
      register_one_def execute_command_def check_expire_def check_expire_from.simps expire_one_def still_env_def hb_add_def Let_def)

text \<open>
  C17: a device that is too quiet is dropped although it is healthy. As long as fewer than 500
  records have been logged since the device started, no data reaches the receiver, whatever
  the device answers over SSH: no task is ever marked, and when the tasks have expired, as
  many passes of \<^verbatim>\<open>check_expire\<close> as there are tasks remove all of them.
\<close>

theorem quiet_device_is_dropped:
  assumes "ireach K hist pc s" and "stack_ok K" and "length hist < 500"
    and "served_by E (kcalls s) ts" and "allocating E" and "received_data es = map str (network (calls ts))"
  shows "\<exists>out r. window_run (receiver_step H) forwarded es receiver_init = Some (out, r) \<and>
    list_all (\<lambda>i. \<not> heartbeat_check i) (executing_tasks r) \<and>
    (\<forall>H' lo hi. clock_within H' lo hi \<and> list_all (\<lambda>i. expire_time i \<le> lo) (executing_tasks r) \<longrightarrow>
       executing_tasks (((\<lambda>s. snd (check_expire H' s)) ^^ length (executing_tasks r)) r) = [])"
proof -
  have "kcalls s = []" using below_threshold [OF assms(1-3)] by blast
  then have "network (calls ts) = []"
    using served_network [OF assms(4,5) ireach_handed [OF assms(1,2)]] by simp
  then have none: "\<And>bs. Receive bs \<notin> set es"
    using assms(6) by (fastforce simp: received_data_def List.map_filter_def filter_empty_conv)
  obtain out r where r: "window_run (receiver_step H) forwarded es receiver_init = Some (out, r)" "receiver_wf r"
    using spade_buffer.run_conserves [OF receiver_init_wf, of H es] by auto
  have u: "list_all (\<lambda>i. \<not> heartbeat_check i) (executing_tasks r)"
    using receiver_run_unmarked [OF r(1) _ none] by (simp add: unmarked_def receiver_init_def)
  have d: "distinct (executing_tasks r)" using r(2) by (simp add: receiver_wf_def supervised_def distinct_map)
  have "executing_tasks (((\<lambda>s. snd (check_expire H' s)) ^^ length (executing_tasks r)) r) = []"
    if c: "clock_within H' lo hi" "list_all (\<lambda>i. expire_time i \<le> lo) (executing_tasks r)" for H' lo hi
  proof -
    have "lo < hi" using c(1) by (auto simp: clock_within_def intro: le_less_trans)
    moreover have "settled lo hi (executing_tasks r)" using d u c(2) by (auto simp: settled_def list_all_iff)
    ultimately show ?thesis
      using expired_leave [OF c(1), of r "length (executing_tasks r)"] c(2) by (fastforce simp: filter_empty_conv list_all_iff)
  qed
  with r(1) u show ?thesis by blast
qed

theorem quiet_device_is_dropped_witness:
  "\<exists>out r. window_run (receiver_step (still_env 9)) forwarded device_run receiver_init = Some (out, r) \<and>
    length (executing_tasks r) = 1 \<and>
    executing_tasks (((\<lambda>s. snd (check_expire (still_env 200000000) s)) ^^ length (executing_tasks r)) r) = []"
proof -
  obtain r where r: "window_run (receiver_step (still_env 9)) forwarded device_run receiver_init = Some ([], r)"
      "executing_tasks r = [\<lparr>create_time = 9, expire_time = 180000009, ip_address = str ''10.0.0.1'',
        execute_cmd = str ''ps 0123'', heartbeat_check = False\<rparr>]"
    using device_run_task by blast
  obtain ts where ts: "served_by demo_env (kcalls one_logged) ts" by (rule demo_serves_calm_kernel [OF one_logged_reach])
  have d: "allocating demo_env" by (simp add: allocating_def demo_env_def)
  have "kcalls one_logged = []" by (simp add: one_logged_def kinit_def)
  then have "network (calls ts) = []"
    using served_network [OF ts d ireach_handed [OF kreach_ireach [OF one_logged_reach] calm_stack]] by simp
  then have "received_data device_run = map str (network (calls ts))"
    by (simp add: received_data_def device_run_def List.map_filter_simps)
  from quiet_device_is_dropped [OF kreach_ireach [OF one_logged_reach] calm_stack _ ts d this, of "still_env 9"] r
  have "\<forall>H' lo hi. clock_within H' lo hi \<and> list_all (\<lambda>i. expire_time i \<le> lo) (executing_tasks r) \<longrightarrow>
      executing_tasks (((\<lambda>s. snd (check_expire H' s)) ^^ length (executing_tasks r)) r) = []"
    by simp
  moreover have "clock_within (still_env 200000000) 200000000 200000001" by (simp add: clock_within_def still_env_def)
  ultimately show ?thesis using r by (intro exI [of _ "[]"] exI [of _ r]) fastforce
qed


definition ps_record :: string where
  "ps_record = ''audit(1.0:7): proctitle=70730030313233,node=iot''"

lemma ps_record_command:
  "\<exists>l. translate_audit_log (str ps_record) = Some l \<and> record_command l = Some (str ''ps 0123'')"
  by (simp add: ps_record_def translate_audit_log_def format_audit_msg_def record_command_def proctitle_def strip_def
      whitespace_def hex_digit_def utf8_decode.simps utf8_next_def py_replace_def)

lemma item_records: "List.map_filter translate_audit_log (map str (replicate n ''audit item,n'')) =
    replicate n (the (translate_audit_log item_line))"
proof -
  obtain l where "translate_audit_log (str ''audit item,n'') = Some l" using item_line_record by (auto simp: item_line_def)
  then show ?thesis by (induction n) (simp_all add: List.map_filter_simps item_line_def del: str_simps)
qed


end
